theory Spec2Isabelle
  imports Main
begin

section \<open>The cleanup service of pkg/services/cleanup/cleanup.go\<close>

text \<open>
  The service is a ticker loop around five delete operations.  Everything it touches
  is a collaborator outside the file: the clock, the file system of the images
  directory, the message bus, the database session, the server lock and the logger.
  The model keeps one record, the world, that holds the state of these collaborators
  and the sequence of calls made to them, in order.  Every function of the source is
  a function from worlds to worlds.
\<close>

subsection \<open>Time\<close>

text \<open>
  A \<open>time.Time\<close> is an instant on the wall clock, counted in nanoseconds from the Unix
  epoch; a \<open>time.Duration\<close> is a signed count of nanoseconds held in 64 bits.
  Arithmetic on durations wraps at 64 bits (\<open>int64\<close>).  The range limit of
  \<open>time.Time\<close> (hundreds of billions of years) is not modelled.
\<close>

type_synonym Time = int
type_synonym Duration = int

definition int64 :: "int \<Rightarrow> int" where
  "int64 x = (x + 2 ^ 63) mod 2 ^ 64 - 2 ^ 63"

definition Second :: Duration where
  "Second = 1000000000"

definition Minute :: Duration where
  "Minute = 60 * Second"

definition Hour :: Duration where
  "Hour = 60 * Minute"

definition Time_Add :: "Time \<Rightarrow> Duration \<Rightarrow> Time" where
  "Time_Add t d = t + d"

definition Time_Before :: "Time \<Rightarrow> Time \<Rightarrow> bool" where
  "Time_Before t u = (t < u)"

text \<open>\<open>Unix()\<close>: whole seconds since the epoch, rounded down.\<close>

definition Time_Unix :: "Time \<Rightarrow> int" where
  "Time_Unix t = t div Second"

subsection \<open>Errors, log records, commands and calls\<close>

datatype error = Canceled | DeadlineExceeded | ErrNotExist | ErrOther string

fun Error_msg :: "error \<Rightarrow> string" where
  "Error_msg Canceled = ''context canceled''"
| "Error_msg DeadlineExceeded = ''context deadline exceeded''"
| "Error_msg ErrNotExist = ''file does not exist''"
| "Error_msg (ErrOther s) = s"

datatype logval = LInt int | LStr string | LErr error | LTime Time

datatype loglevel = LvlError | LvlDebug

datatype command =
    DeleteExpiredSnapshotsCommand
  | DeleteExpiredVersionsCommand
  | DeleteOldLoginAttemptsCommand Time

text \<open>
  One constructor for each call to a collaborator.  \<open>OsRemove d n\<close> stands for
  \<open>os.Remove(path.Join(d, n))\<close>: the removal of entry \<open>n\<close> of directory \<open>d\<close>.
\<close>

datatype effect =
    OsStat string
  | ReadDir string
  | OsRemove string string
  | BusDispatch command
  | WithDbSessionCall
  | DbExec string "int list"
  | NewTicker Duration
  | LockAndExecuteCall string Duration
  | Log loglevel string "(string \<times> logval) list"

subsection \<open>Configuration and world\<close>

record Cfg =
  ImagesDir :: string
  TempDataLifetime :: Duration
  UserInviteMaxLifetimeDays :: int
  DisableBruteForceLoginProtection :: bool

record FileInfo =
  Name :: string
  ModTime :: Time

datatype dir_state = NoDir | Unreadable error | Dir "FileInfo list"

record temp_user_row =
  Id :: int
  created_at :: int

text \<open>
  \<open>now\<close> is what \<open>time.Now()\<close> returns; \<open>dirs\<close> maps a path to the state of the
  directory there; \<open>remove_err d n\<close> is the error with which removing entry \<open>n\<close> of
  \<open>d\<close> fails, if it does; \<open>temp_user\<close> is the table of invites; \<open>exec_err\<close> makes
  the statement fail; \<open>rows_affected_err\<close> makes the reading of its count fail, with
  the count and the error that \<open>RowsAffected()\<close> then hands back;
  \<open>bus_reply\<close> is what the handler of a command answers (an error or the number of
  deleted rows); \<open>lock_reply\<close> is the answer of the lock coordinator (an error when
  the lease is denied); \<open>trace\<close> is the sequence of calls so far.
\<close>

record world =
  now :: Time
  dirs :: "string \<Rightarrow> dir_state"
  remove_err :: "string \<Rightarrow> string \<Rightarrow> error option"
  temp_user :: "temp_user_row list"
  exec_err :: "error option"
  rows_affected_err :: "(int \<times> error) option"
  bus_reply :: "command \<Rightarrow> error + int"
  lock_reply :: "string \<Rightarrow> Duration \<Rightarrow> error option"
  trace :: "effect list"

text \<open>A \<open>context.Context\<close>, reduced to what \<open>ctx.Err()\<close> returns.\<close>

datatype go_context = Context "error option"

definition emit :: "effect \<Rightarrow> world \<Rightarrow> world" where
  "emit e w = w\<lparr>trace := trace w @ [e]\<rparr>"

definition srv_log :: "loglevel \<Rightarrow> string \<Rightarrow> (string \<times> logval) list \<Rightarrow> world \<Rightarrow> world" where
  "srv_log lvl msg ctx w = emit (Log lvl msg ctx) w"

definition time_Now :: "world \<Rightarrow> Time" where
  "time_Now w = now w"

subsection \<open>The file system collaborator\<close>

definition os_Stat :: "string \<Rightarrow> world \<Rightarrow> error option \<times> world" where
  "os_Stat p w =
     ((case dirs w p of NoDir \<Rightarrow> Some ErrNotExist | Unreadable e \<Rightarrow> None | Dir fs \<Rightarrow> None),
      emit (OsStat p) w)"

definition os_IsNotExist :: "error option \<Rightarrow> bool" where
  "os_IsNotExist err = (err = Some ErrNotExist)"

definition ioutil_ReadDir :: "string \<Rightarrow> world \<Rightarrow> (error + FileInfo list) \<times> world" where
  "ioutil_ReadDir p w =
     ((case dirs w p of NoDir \<Rightarrow> Inl ErrNotExist | Unreadable e \<Rightarrow> Inl e | Dir fs \<Rightarrow> Inr fs),
      emit (ReadDir p) w)"

definition os_Remove :: "string \<Rightarrow> string \<Rightarrow> world \<Rightarrow> error option \<times> world" where
  "os_Remove d n w =
     (let w' = emit (OsRemove d n) w in
      case remove_err w d n of
        Some e \<Rightarrow> (Some e, w')
      | None \<Rightarrow>
          (case dirs w d of
             Dir fs \<Rightarrow>
               if n \<in> set (map Name fs)
               then (None, w'\<lparr>dirs := (dirs w)(d := Dir (filter (\<lambda>f. Name f \<noteq> n) fs))\<rparr>)
               else (Some ErrNotExist, w')
           | NoDir \<Rightarrow> (Some ErrNotExist, w')
           | Unreadable e \<Rightarrow> (Some ErrNotExist, w')))"

text \<open>The entries of a directory, as a listing would give them (none where there is none).\<close>

definition listing :: "world \<Rightarrow> string \<Rightarrow> FileInfo list" where
  "listing w p = (case dirs w p of Dir fs \<Rightarrow> fs | NoDir \<Rightarrow> [] | Unreadable e \<Rightarrow> [])"

subsection \<open>The bus and the database session\<close>

definition bus_Dispatch :: "command \<Rightarrow> world \<Rightarrow> (error + int) \<times> world" where
  "bus_Dispatch cmd w = (bus_reply w cmd, emit (BusDispatch cmd) w)"

text \<open>
  Modelled from the spec: \<open>sqlstore.WithDbSession\<close> is not part of the file.  The spec
  calls it a generic session-scoped SQL execution primitive: it runs the body in a
  session and hands back what the body returns.
\<close>

definition WithDbSession :: "go_context \<Rightarrow> (world \<Rightarrow> 'r \<times> world) \<Rightarrow> world \<Rightarrow> 'r \<times> world" where
  "WithDbSession ctx callback w = callback (emit WithDbSessionCall w)"

text \<open>
  \<open>dbSession.Exec\<close>, for the one statement the file sends: rows of \<open>temp_user\<close> whose
  \<open>created_at\<close> is at most the argument are deleted.  The result is the pair that
  \<open>RowsAffected()\<close> will return: a count and an error, the error \<open>None\<close> where the
  count is that of the deleted rows.
\<close>

type_synonym sql_Result = "int \<times> error option"

definition dbSession_Exec :: "string \<Rightarrow> int list \<Rightarrow> world \<Rightarrow> (error + sql_Result) \<times> world" where
  "dbSession_Exec sql args w =
     (let w' = emit (DbExec sql args) w in
      case exec_err w of
        Some e \<Rightarrow> (Inl e, w')
      | None \<Rightarrow>
          (case args of
             [a] \<Rightarrow>
               if sql = ''DELETE from temp_user WHERE created_at <= ?''
               then
                 (Inr (case rows_affected_err w of
                         Some (n, e) \<Rightarrow> (n, Some e)
                       | None \<Rightarrow> (int (length (filter (\<lambda>r. created_at r \<le> a) (temp_user w))), None)),
                  w'\<lparr>temp_user := filter (\<lambda>r. \<not> created_at r \<le> a) (temp_user w)\<rparr>)
               else (Inl (ErrOther ''unsupported statement''), w')
           | _ \<Rightarrow> (Inl (ErrOther ''unsupported statement''), w')))"

subsection \<open>The server lock\<close>

text \<open>
  Modelled from the spec: \<open>serverlock.LockAndExecute\<close> is not part of the file.  The
  spec gives it as \<open>lockAndExecute(name, leaseDuration, body) -> error\<close>, which
  returns an error if the lock cannot be acquired (body not executed), and runs the
  body otherwise.
\<close>

definition LockAndExecute ::
    "go_context \<Rightarrow> string \<Rightarrow> Duration \<Rightarrow> (world \<Rightarrow> world) \<Rightarrow> world \<Rightarrow> error option \<times> world" where
  "LockAndExecute ctx actionName maxInterval fn w =
     (let w' = emit (LockAndExecuteCall actionName maxInterval) w in
      case lock_reply w actionName maxInterval of
        Some e \<Rightarrow> (Some e, w')
      | None \<Rightarrow> (None, fn w'))"

subsection \<open>Expiration policy and the temp-file cleanup\<close>

definition shouldCleanupTempFile :: "Cfg \<Rightarrow> Time \<Rightarrow> Time \<Rightarrow> bool" where
  "shouldCleanupTempFile cfg filemtime tnow =
     (if TempDataLifetime cfg = 0 then False
      else Time_Before (Time_Add filemtime (TempDataLifetime cfg)) tnow)"

text \<open>The body of the second loop of \<open>cleanUpTmpFiles\<close>, for one file.\<close>

definition removeTmpFile :: "Cfg \<Rightarrow> world \<Rightarrow> FileInfo \<Rightarrow> world" where
  "removeTmpFile cfg w file =
     (case os_Remove (ImagesDir cfg) (Name file) w of
        (Some err, w') \<Rightarrow>
          srv_log LvlError ''Failed to delete temp file''
            [(''file'', LStr (Name file)), (''error'', LErr err)] w'
      | (None, w') \<Rightarrow> w')"

definition cleanUpTmpFiles :: "Cfg \<Rightarrow> world \<Rightarrow> world" where
  "cleanUpTmpFiles cfg w0 =
     (case os_Stat (ImagesDir cfg) w0 of
        (serr, w1) \<Rightarrow>
          if os_IsNotExist serr then w1
          else
            (case ioutil_ReadDir (ImagesDir cfg) w1 of
               (Inl err, w2) \<Rightarrow>
                 srv_log LvlError ''Problem reading image dir'' [(''error'', LErr err)] w2
             | (Inr files, w2) \<Rightarrow>
                 (let tnow = time_Now w2;
                      toDelete = filter (\<lambda>file. shouldCleanupTempFile cfg (ModTime file) tnow) files;
                      w3 = foldl (removeTmpFile cfg) w2 toDelete
                  in srv_log LvlDebug ''Found old rendered image to delete''
                       [(''deleted'', LInt (int (length toDelete))),
                        (''kept'', LInt (int (length files)))] w3)))"

subsection \<open>The bus-backed delete operations\<close>

definition deleteExpiredSnapshots :: "world \<Rightarrow> world" where
  "deleteExpiredSnapshots w =
     (case bus_Dispatch DeleteExpiredSnapshotsCommand w of
        (Inl err, w') \<Rightarrow>
          srv_log LvlError ''Failed to delete expired snapshots''
            [(''error'', LStr (Error_msg err))] w'
      | (Inr rows, w') \<Rightarrow>
          srv_log LvlDebug ''Deleted expired snapshots'' [(''rows affected'', LInt rows)] w')"

definition deleteExpiredDashboardVersions :: "world \<Rightarrow> world" where
  "deleteExpiredDashboardVersions w =
     (case bus_Dispatch DeleteExpiredVersionsCommand w of
        (Inl err, w') \<Rightarrow>
          srv_log LvlError ''Failed to delete expired dashboard versions''
            [(''error'', LStr (Error_msg err))] w'
      | (Inr rows, w') \<Rightarrow>
          srv_log LvlDebug ''Deleted old/expired dashboard versions''
            [(''rows affected'', LInt rows)] w')"

definition deleteOldLoginAttempts :: "Cfg \<Rightarrow> world \<Rightarrow> world" where
  "deleteOldLoginAttempts cfg w =
     (if DisableBruteForceLoginProtection cfg then w
      else
        (case bus_Dispatch
                (DeleteOldLoginAttemptsCommand (Time_Add (time_Now w) (int64 (Minute * (- 10))))) w of
           (Inl err, w') \<Rightarrow>
             srv_log LvlError ''Problem deleting expired login attempts''
               [(''error'', LStr (Error_msg err))] w'
         | (Inr rows, w') \<Rightarrow>
             srv_log LvlDebug ''Deleted expired login attempts''
               [(''rows affected'', LInt rows)] w'))"

subsection \<open>The user-invite deletion\<close>

text \<open>
  The result is the pair \<open>(affected, err)\<close> the function returns.  \<open>affected\<close> starts
  at 0 and is assigned from \<open>RowsAffected()\<close> before the error is tested, so where that
  call fails the function returns the count handed back beside the error.
\<close>

definition deleteExpiredUserInvites ::
    "Cfg \<Rightarrow> go_context \<Rightarrow> world \<Rightarrow> (int \<times> error option) \<times> world" where
  "deleteExpiredUserInvites cfg ctx w0 =
     (let maxInviteLifetime = int64 (int64 (int64 (UserInviteMaxLifetimeDays cfg) * 24) * Hour)
      in WithDbSession ctx
           (\<lambda>w1.
              let sql = ''DELETE from temp_user WHERE created_at <= ?'';
                  createdBefore = Time_Add (time_Now w1) (int64 (- maxInviteLifetime));
                  w2 = srv_log LvlDebug ''starting cleanup of expired user invites''
                         [(''createdBefore'', LTime createdBefore)] w1
              in case dbSession_Exec sql [Time_Unix createdBefore] w2 of
                   (Inl err, w3) \<Rightarrow> ((0, Some err), w3)
                 | (Inr res, w3) \<Rightarrow>
                     (case res of
                        (affected, Some err) \<Rightarrow>
                          ((affected, None),
                           srv_log LvlError ''failed to cleanup expired user invites''
                             [(''error'', LErr err)] w3)
                      | (affected, None) \<Rightarrow>
                          ((affected, None),
                           srv_log LvlDebug ''cleanup of expired user invites done''
                             [(''count'', LInt affected)] w3)))
           w0)"

subsection \<open>The scheduler loop\<close>

text \<open>The body of the ticker case of the \<open>select\<close> in \<open>Run\<close>.\<close>

definition tick :: "Cfg \<Rightarrow> go_context \<Rightarrow> world \<Rightarrow> world" where
  "tick cfg ctx w0 =
     (let w1 = cleanUpTmpFiles cfg w0;
          w2 = deleteExpiredSnapshots w1;
          w3 = deleteExpiredDashboardVersions w2;
          w4 = snd (deleteExpiredUserInvites cfg ctx w3)
      in case LockAndExecute ctx ''delete old login attempts'' (Minute * 10)
                (deleteOldLoginAttempts cfg) w4 of
           (Some err, w5) \<Rightarrow>
             srv_log LvlError ''failed to lock and execute cleanup of old login attempts''
               [(''error'', LErr err)] w5
         | (None, w5) \<Rightarrow> w5)"

text \<open>
  What the \<open>select\<close> of the loop receives.  \<open>TickerC env c\<close>: while the loop was
  blocked the collaborators changed as \<open>env\<close> says (time passed, files appeared),
  then the ticker fired and its case was taken; \<open>c\<close> is what \<open>ctx.Err()\<close> is while
  the operations of this tick run (\<open>None\<close> unless the cancellation has arrived
  already).  \<open>CtxDone r\<close>: the case of \<open>ctx.Done()\<close> was taken and \<open>ctx.Err()\<close> is \<open>r\<close>.
  The environment does not rewrite the calls made so far.
\<close>

datatype select_case = TickerC "world \<Rightarrow> world" "error option" | CtxDone error

text \<open>
  The loop, over the cases the \<open>select\<close> receives.  The first component of the result
  is \<open>None\<close> while the loop is still blocked in the \<open>select\<close> after the last case
  given, and the returned error once \<open>Run\<close> has returned.
\<close>

fun Run_loop :: "Cfg \<Rightarrow> world \<Rightarrow> select_case list \<Rightarrow> error option \<times> world" where
  "Run_loop cfg w [] = (None, w)"
| "Run_loop cfg w (TickerC env c # evs) =
     Run_loop cfg (tick cfg (Context c) ((env w)\<lparr>trace := trace w\<rparr>)) evs"
| "Run_loop cfg w (CtxDone r # evs) = (Some r, w)"

definition Run :: "Cfg \<Rightarrow> world \<Rightarrow> select_case list \<Rightarrow> error option \<times> world" where
  "Run cfg w evs =
     Run_loop cfg (emit (NewTicker (Minute * 10)) (cleanUpTmpFiles cfg w)) evs"

subsection \<open>Reading the trace\<close>

text \<open>
  The call with which each operation of the loop starts: the \<open>os.Stat\<close> of the images
  directory for the temp-file cleanup, the dispatch of their command for the snapshot
  and dashboard-version deletions, the opening of the session for the user-invite
  deletion, the lock acquisition for the login-attempt deletion; and the creation of
  the ticker.
\<close>

fun is_entry :: "effect \<Rightarrow> bool" where
  "is_entry (OsStat d) = True"
| "is_entry (BusDispatch DeleteExpiredSnapshotsCommand) = True"
| "is_entry (BusDispatch DeleteExpiredVersionsCommand) = True"
| "is_entry (BusDispatch (DeleteOldLoginAttemptsCommand t)) = False"
| "is_entry WithDbSessionCall = True"
| "is_entry (LockAndExecuteCall n d) = True"
| "is_entry (NewTicker d) = True"
| "is_entry (ReadDir d) = False"
| "is_entry (OsRemove d n) = False"
| "is_entry (DbExec q a) = False"
| "is_entry (Log l m c) = False"

fun is_login_attempt_delete :: "effect \<Rightarrow> bool" where
  "is_login_attempt_delete (BusDispatch (DeleteOldLoginAttemptsCommand t)) = True"
| "is_login_attempt_delete (BusDispatch DeleteExpiredSnapshotsCommand) = False"
| "is_login_attempt_delete (BusDispatch DeleteExpiredVersionsCommand) = False"
| "is_login_attempt_delete (OsStat d) = False"
| "is_login_attempt_delete (ReadDir d) = False"
| "is_login_attempt_delete (OsRemove d n) = False"
| "is_login_attempt_delete WithDbSessionCall = False"
| "is_login_attempt_delete (DbExec q a) = False"
| "is_login_attempt_delete (NewTicker d) = False"
| "is_login_attempt_delete (LockAndExecuteCall n d) = False"
| "is_login_attempt_delete (Log l m c) = False"

fun is_lock_call :: "effect \<Rightarrow> bool" where
  "is_lock_call (LockAndExecuteCall n d) = True"
| "is_lock_call (BusDispatch c) = False"
| "is_lock_call (OsStat d) = False"
| "is_lock_call (ReadDir d) = False"
| "is_lock_call (OsRemove d n) = False"
| "is_lock_call WithDbSessionCall = False"
| "is_lock_call (DbExec q a) = False"
| "is_lock_call (NewTicker d) = False"
| "is_lock_call (Log l m c) = False"

fun is_ticker :: "effect \<Rightarrow> bool" where
  "is_ticker (NewTicker d) = True"
| "is_ticker (BusDispatch c) = False"
| "is_ticker (OsStat d) = False"
| "is_ticker (ReadDir d) = False"
| "is_ticker (OsRemove d n) = False"
| "is_ticker WithDbSessionCall = False"
| "is_ticker (DbExec q a) = False"
| "is_ticker (LockAndExecuteCall n d) = False"
| "is_ticker (Log l m c) = False"

text \<open>
  The operation a call belongs to.  A log record belongs to the operation whose
  message it carries.
\<close>

datatype operation =
  StartTicker | TmpFiles | Snapshots | DashboardVersions | UserInvites | LoginAttempts

fun owner :: "effect \<Rightarrow> operation" where
  "owner (OsStat d) = TmpFiles"
| "owner (ReadDir d) = TmpFiles"
| "owner (OsRemove d n) = TmpFiles"
| "owner (BusDispatch DeleteExpiredSnapshotsCommand) = Snapshots"
| "owner (BusDispatch DeleteExpiredVersionsCommand) = DashboardVersions"
| "owner (BusDispatch (DeleteOldLoginAttemptsCommand t)) = LoginAttempts"
| "owner WithDbSessionCall = UserInvites"
| "owner (DbExec q a) = UserInvites"
| "owner (NewTicker d) = StartTicker"
| "owner (LockAndExecuteCall n d) = LoginAttempts"
| "owner (Log l m c) =
     (if m = ''Problem reading image dir'' \<or> m = ''Failed to delete temp file''
         \<or> m = ''Found old rendered image to delete'' then TmpFiles
      else if m = ''Failed to delete expired snapshots'' \<or> m = ''Deleted expired snapshots''
      then Snapshots
      else if m = ''Failed to delete expired dashboard versions''
         \<or> m = ''Deleted old/expired dashboard versions'' then DashboardVersions
      else if m = ''starting cleanup of expired user invites''
         \<or> m = ''failed to cleanup expired user invites''
         \<or> m = ''cleanup of expired user invites done'' then UserInvites
      else LoginAttempts)"

subsection \<open>Worlds and configurations for the concrete scenarios\<close>

definition quiet_world :: world where
  "quiet_world =
     \<lparr>now = 0, dirs = (\<lambda>p. NoDir), remove_err = (\<lambda>d n. None), temp_user = [],
      exec_err = None, rows_affected_err = None, bus_reply = (\<lambda>c. Inr 0),
      lock_reply = (\<lambda>n d. None), trace = []\<rparr>"

definition cfg_with_lifetime :: "Duration \<Rightarrow> Cfg" where
  "cfg_with_lifetime l =
     \<lparr>ImagesDir = ''png'', TempDataLifetime = l, UserInviteMaxLifetimeDays = 3,
      DisableBruteForceLoginProtection = False\<rparr>"

definition images_world :: "Time \<Rightarrow> FileInfo list \<Rightarrow> world" where
  "images_world t files =
     quiet_world\<lparr>now := t, dirs := (\<lambda>p. if p = ''png'' then Dir files else NoDir)\<rparr>"

definition invites_world :: "Time \<Rightarrow> temp_user_row list \<Rightarrow> world" where
  "invites_world t rows = quiet_world\<lparr>now := t, temp_user := rows\<rparr>"

section \<open>What a cleanup pass does to the world\<close>

lemma removeTmpFile_fields:
  "now (removeTmpFile cfg w g) = now w"
  "remove_err (removeTmpFile cfg w g) = remove_err w"
  "temp_user (removeTmpFile cfg w g) = temp_user w"
  "exec_err (removeTmpFile cfg w g) = exec_err w"
  "rows_affected_err (removeTmpFile cfg w g) = rows_affected_err w"
  "bus_reply (removeTmpFile cfg w g) = bus_reply w"
  "lock_reply (removeTmpFile cfg w g) = lock_reply w"
  by (simp_all add: removeTmpFile_def os_Remove_def srv_log_def emit_def Let_def
        split: option.splits dir_state.splits)


lemma removeTmpFile_dirs:
  "dirs w (ImagesDir cfg) = Dir fs \<Longrightarrow>
   dirs (removeTmpFile cfg w g) (ImagesDir cfg) =
     Dir (filter (\<lambda>f. \<not> (Name f = Name g \<and> remove_err w (ImagesDir cfg) (Name g) = None)) fs)"
  apply (simp add: removeTmpFile_def os_Remove_def srv_log_def emit_def Let_def
        split: option.splits dir_state.splits)
  apply (auto intro!: filter_id_conv[THEN iffD2, symmetric] simp: image_iff)
  done

lemma foldl_removeTmpFile_fields:
  "now (foldl (removeTmpFile cfg) w gs) = now w"
  "remove_err (foldl (removeTmpFile cfg) w gs) = remove_err w"
  "temp_user (foldl (removeTmpFile cfg) w gs) = temp_user w"
  "exec_err (foldl (removeTmpFile cfg) w gs) = exec_err w"
  "rows_affected_err (foldl (removeTmpFile cfg) w gs) = rows_affected_err w"
  "bus_reply (foldl (removeTmpFile cfg) w gs) = bus_reply w"
  "lock_reply (foldl (removeTmpFile cfg) w gs) = lock_reply w"
  by (induction gs arbitrary: w; simp add: removeTmpFile_fields)+


lemma foldl_removeTmpFile_dirs:
  "dirs w (ImagesDir cfg) = Dir fs \<Longrightarrow>
   dirs (foldl (removeTmpFile cfg) w gs) (ImagesDir cfg) =
     Dir (filter (\<lambda>f. \<not> (\<exists>g\<in>set gs. Name f = Name g \<and> remove_err w (ImagesDir cfg) (Name g) = None)) fs)"
proof (induction gs arbitrary: w fs)
  case Nil
  then show ?case by simp
next
  case (Cons g gs)
  show ?case
    using Cons.IH [OF removeTmpFile_dirs [OF Cons.prems, of g]]
    by (auto simp: removeTmpFile_fields intro!: filter_cong)
qed

text \<open>A removal adds only removal calls and error records to the trace.\<close>

lemma removeTmpFile_trace:
  "\<exists>es. trace (removeTmpFile cfg w g) = trace w @ es \<and>
        (\<forall>e\<in>set es. (\<exists>d n. e = OsRemove d n) \<or> (\<exists>m c. e = Log LvlError m c))"
  by (auto simp add: removeTmpFile_def os_Remove_def srv_log_def emit_def Let_def
        split: option.splits dir_state.splits)

lemma foldl_removeTmpFile_filter:
  assumes "\<And>d n. \<not> P (OsRemove d n)" "\<And>m c. \<not> P (Log LvlError m c)"
  shows "filter P (trace (foldl (removeTmpFile cfg) w gs)) = filter P (trace w)"
proof (induction gs arbitrary: w)
  case Nil
  show ?case by simp
next
  case (Cons g gs)
  obtain es where es: "trace (removeTmpFile cfg w g) = trace w @ es"
    "\<forall>e\<in>set es. (\<exists>d n. e = OsRemove d n) \<or> (\<exists>m c. e = Log LvlError m c)"
    using removeTmpFile_trace by blast
  have "filter P es = []"
    using es(2) assms by (auto simp: filter_empty_conv)
  then show ?case using Cons.IH [of "removeTmpFile cfg w g"] es(1) by simp
qed

lemma cleanUpTmpFiles_fields:
  "now (cleanUpTmpFiles cfg w) = now w"
  "remove_err (cleanUpTmpFiles cfg w) = remove_err w"
  "temp_user (cleanUpTmpFiles cfg w) = temp_user w"
  "exec_err (cleanUpTmpFiles cfg w) = exec_err w"
  "rows_affected_err (cleanUpTmpFiles cfg w) = rows_affected_err w"
  "bus_reply (cleanUpTmpFiles cfg w) = bus_reply w"
  "lock_reply (cleanUpTmpFiles cfg w) = lock_reply w"
  by (simp_all add: cleanUpTmpFiles_def os_Stat_def ioutil_ReadDir_def srv_log_def emit_def
        Let_def foldl_removeTmpFile_fields split: dir_state.splits)


lemma cleanUpTmpFiles_dirs_none:
  "\<forall>fs. dirs w (ImagesDir cfg) \<noteq> Dir fs \<Longrightarrow> dirs (cleanUpTmpFiles cfg w) = dirs w"
  by (simp add: cleanUpTmpFiles_def os_Stat_def ioutil_ReadDir_def srv_log_def emit_def
        Let_def os_IsNotExist_def split: dir_state.splits)

lemma cleanUpTmpFiles_dirs:
  "dirs w (ImagesDir cfg) = Dir fs \<Longrightarrow>
   dirs (cleanUpTmpFiles cfg w) (ImagesDir cfg) =
     Dir (filter (\<lambda>f. \<not> (\<exists>g\<in>set fs. shouldCleanupTempFile cfg (ModTime g) (now w) \<and>
                          Name f = Name g \<and> remove_err w (ImagesDir cfg) (Name g) = None)) fs)"
  by (simp add: cleanUpTmpFiles_def os_Stat_def ioutil_ReadDir_def srv_log_def emit_def
        Let_def os_IsNotExist_def time_Now_def foldl_removeTmpFile_dirs)
     (auto intro!: filter_cong)

lemma cleanUpTmpFiles_listing_distinct:
  assumes "dirs w (ImagesDir cfg) = Dir files" "distinct (map Name files)" "file \<in> set files"
  shows "Name file \<in> set (map Name (listing (cleanUpTmpFiles cfg w) (ImagesDir cfg))) \<longleftrightarrow>
         \<not> (shouldCleanupTempFile cfg (ModTime file) (now w) \<and>
            remove_err w (ImagesDir cfg) (Name file) = None)"
proof -
  let ?gone = "\<lambda>f. \<exists>g\<in>set files. shouldCleanupTempFile cfg (ModTime g) (now w) \<and>
                  Name f = Name g \<and> remove_err w (ImagesDir cfg) (Name g) = None"
  have inj: "inj_on Name (set files)"
    using assms(2) by (simp add: distinct_map)
  have same: "g = file" if "g \<in> set files" "Name g = Name file" for g
    using inj that assms(3) unfolding inj_on_def by blast
  have gone: "?gone file \<longleftrightarrow> shouldCleanupTempFile cfg (ModTime file) (now w) \<and>
                remove_err w (ImagesDir cfg) (Name file) = None"
  proof
    assume "?gone file"
    then obtain g where g: "g \<in> set files" "shouldCleanupTempFile cfg (ModTime g) (now w)"
      "Name file = Name g" "remove_err w (ImagesDir cfg) (Name g) = None" by blast
    have "g = file" using same [OF g(1)] g(3) by simp
    then show "shouldCleanupTempFile cfg (ModTime file) (now w) \<and>
                remove_err w (ImagesDir cfg) (Name file) = None" using g by simp
  next
    assume "shouldCleanupTempFile cfg (ModTime file) (now w) \<and>
                remove_err w (ImagesDir cfg) (Name file) = None"
    then show "?gone file" using assms(3) by blast
  qed
  have l: "listing (cleanUpTmpFiles cfg w) (ImagesDir cfg) = filter (\<lambda>f. \<not> ?gone f) files"
    by (simp add: listing_def cleanUpTmpFiles_dirs [OF assms(1)])
  have "Name file \<in> Name ` set (filter (\<lambda>f. \<not> ?gone f) files) \<longleftrightarrow> \<not> ?gone file"
  proof
    assume "Name file \<in> Name ` set (filter (\<lambda>f. \<not> ?gone f) files)"
    then obtain f where f: "f \<in> set files" "\<not> ?gone f" "Name f = Name file" by auto
    have "f = file" using same [OF f(1) f(3)] .
    then show "\<not> ?gone file" using f(2) by simp
  next
    assume "\<not> ?gone file"
    then have "file \<in> set (filter (\<lambda>f. \<not> ?gone f) files)" using assms(3) by simp
    then show "Name file \<in> Name ` set (filter (\<lambda>f. \<not> ?gone f) files)" by (rule imageI)
  qed
  then show ?thesis unfolding l gone by simp
qed

section \<open>Expiration policy\<close>

lemmas eval_defs =
  cleanUpTmpFiles_def removeTmpFile_def os_Stat_def os_IsNotExist_def ioutil_ReadDir_def
  os_Remove_def srv_log_def emit_def time_Now_def shouldCleanupTempFile_def Time_Before_def
  Time_Add_def images_world_def quiet_world_def cfg_with_lifetime_def listing_def
  Hour_def Minute_def Second_def Let_def

text \<open>
  C1 (as amended).  For every lifetime L > 0 and every age A = now - modTime, the
  policy selects a file iff A > L, strictly: a file whose age equals the lifetime is
  kept.  For L = 0 it selects no file.  So a pass of the temp-file cleanup over a
  directory removes an entry whose removal does not fail iff A > L, and removes none
  when L = 0.
\<close>

theorem cleanUpTmpFiles_deletes_iff_older:
  "(0 < TempDataLifetime cfg \<longrightarrow>
      (shouldCleanupTempFile cfg modTime tnow \<longleftrightarrow> TempDataLifetime cfg < tnow - modTime))
   \<and> (TempDataLifetime cfg = 0 \<longrightarrow> \<not> shouldCleanupTempFile cfg modTime tnow)
   \<and> (dirs w (ImagesDir cfg) = Dir files \<and> distinct (map Name files) \<and> file \<in> set files
        \<and> remove_err w (ImagesDir cfg) (Name file) = None \<longrightarrow>
       (0 < TempDataLifetime cfg \<longrightarrow>
          (Name file \<notin> set (map Name (listing (cleanUpTmpFiles cfg w) (ImagesDir cfg)))
             \<longleftrightarrow> TempDataLifetime cfg < now w - ModTime file))
       \<and> (TempDataLifetime cfg = 0 \<longrightarrow>
            Name file \<in> set (map Name (listing (cleanUpTmpFiles cfg w) (ImagesDir cfg)))))"
proof -
  have policy: "shouldCleanupTempFile cfg m n \<longleftrightarrow>
                  TempDataLifetime cfg \<noteq> 0 \<and> TempDataLifetime cfg < n - m" for m n
    by (auto simp: shouldCleanupTempFile_def Time_Before_def Time_Add_def)
  have a: "0 < TempDataLifetime cfg \<longrightarrow>
      (shouldCleanupTempFile cfg modTime tnow \<longleftrightarrow> TempDataLifetime cfg < tnow - modTime)"
    by (simp add: policy)
  have b: "TempDataLifetime cfg = 0 \<longrightarrow> \<not> shouldCleanupTempFile cfg modTime tnow"
    by (simp add: policy)
  have c: "(0 < TempDataLifetime cfg \<longrightarrow>
          (Name file \<notin> set (map Name (listing (cleanUpTmpFiles cfg w) (ImagesDir cfg)))
             \<longleftrightarrow> TempDataLifetime cfg < now w - ModTime file))
       \<and> (TempDataLifetime cfg = 0 \<longrightarrow>
            Name file \<in> set (map Name (listing (cleanUpTmpFiles cfg w) (ImagesDir cfg))))"
    if h: "dirs w (ImagesDir cfg) = Dir files" "distinct (map Name files)" "file \<in> set files"
      "remove_err w (ImagesDir cfg) (Name file) = None"
    unfolding cleanUpTmpFiles_listing_distinct [OF h(1,2,3)] policy using h(4) by simp
  show ?thesis
    using a b c by blast
qed

theorem cleanUpTmpFiles_deletes_iff_older_witness:
  "0 < TempDataLifetime (cfg_with_lifetime Hour)
   \<and> distinct (map Name [\<lparr>Name = ''a.png'', ModTime = Hour\<rparr>, \<lparr>Name = ''b.png'', ModTime = 2 * Hour\<rparr>])
   \<and> TempDataLifetime (cfg_with_lifetime Hour) < 3 * Hour - Hour
   \<and> ''a.png'' \<notin> set (map Name (listing (cleanUpTmpFiles (cfg_with_lifetime Hour)
         (images_world (3 * Hour)
            [\<lparr>Name = ''a.png'', ModTime = Hour\<rparr>, \<lparr>Name = ''b.png'', ModTime = 2 * Hour\<rparr>]))
         ''png''))"
  using cleanUpTmpFiles_deletes_iff_older
    [of "cfg_with_lifetime Hour" 0 0
        "images_world (3 * Hour)
           [\<lparr>Name = ''a.png'', ModTime = Hour\<rparr>, \<lparr>Name = ''b.png'', ModTime = 2 * Hour\<rparr>]"
        "[\<lparr>Name = ''a.png'', ModTime = Hour\<rparr>, \<lparr>Name = ''b.png'', ModTime = 2 * Hour\<rparr>]"
        "\<lparr>Name = ''a.png'', ModTime = Hour\<rparr>"]
  by (simp add: images_world_def quiet_world_def cfg_with_lifetime_def Hour_def Minute_def
        Second_def)

text \<open>
  C1 as stated fails where the age equals the lifetime: with a lifetime of one hour, a
  file modified exactly one hour ago has A >= L, and the cleanup keeps it.
\<close>

theorem cleanUpTmpFiles_keeps_at_exact_lifetime:
  "0 < TempDataLifetime (cfg_with_lifetime Hour)
   \<and> TempDataLifetime (cfg_with_lifetime Hour) \<le> Hour - 0
   \<and> \<not> shouldCleanupTempFile (cfg_with_lifetime Hour) 0 Hour
   \<and> listing (cleanUpTmpFiles (cfg_with_lifetime Hour)
        (images_world Hour [\<lparr>Name = ''a.png'', ModTime = 0\<rparr>])) ''png''
       = [\<lparr>Name = ''a.png'', ModTime = 0\<rparr>]"
  by (simp add: eval_defs)

text \<open>
  C2 (as amended).  \<open>shouldCleanupTempFile\<close> is a function of the configured lifetime,
  the modification time and the current time alone.  It returns false whenever the
  lifetime is zero, and otherwise returns true iff modTime + lifetime < now.  So a
  pass of the temp-file cleanup removes an entry only if the lifetime is not zero and
  now - modTime > lifetime (hence >= lifetime); lifetime > 0 follows where the
  configured lifetime is not negative.
\<close>

theorem shouldCleanupTempFile_contract:
  "(TempDataLifetime cfg = 0 \<longrightarrow> \<not> shouldCleanupTempFile cfg modTime tnow)
   \<and> (TempDataLifetime cfg \<noteq> 0 \<longrightarrow>
        (shouldCleanupTempFile cfg modTime tnow \<longleftrightarrow> modTime + TempDataLifetime cfg < tnow))
   \<and> (dirs w (ImagesDir cfg) = Dir files \<and> distinct (map Name files) \<and> file \<in> set files
        \<and> Name file \<notin> set (map Name (listing (cleanUpTmpFiles cfg w) (ImagesDir cfg))) \<longrightarrow>
       TempDataLifetime cfg \<noteq> 0
       \<and> TempDataLifetime cfg < now w - ModTime file
       \<and> TempDataLifetime cfg \<le> now w - ModTime file
       \<and> (0 \<le> TempDataLifetime cfg \<longrightarrow> 0 < TempDataLifetime cfg))"
proof -
  have policy: "shouldCleanupTempFile cfg m n \<longleftrightarrow>
                  TempDataLifetime cfg \<noteq> 0 \<and> m + TempDataLifetime cfg < n" for m n
    by (simp add: shouldCleanupTempFile_def Time_Before_def Time_Add_def)
  have a: "TempDataLifetime cfg = 0 \<longrightarrow> \<not> shouldCleanupTempFile cfg modTime tnow"
    by (simp add: policy)
  have b: "TempDataLifetime cfg \<noteq> 0 \<longrightarrow>
        (shouldCleanupTempFile cfg modTime tnow \<longleftrightarrow> modTime + TempDataLifetime cfg < tnow)"
    by (simp add: policy)
  have c: "TempDataLifetime cfg \<noteq> 0
       \<and> TempDataLifetime cfg < now w - ModTime file
       \<and> TempDataLifetime cfg \<le> now w - ModTime file
       \<and> (0 \<le> TempDataLifetime cfg \<longrightarrow> 0 < TempDataLifetime cfg)"
    if h: "dirs w (ImagesDir cfg) = Dir files" "distinct (map Name files)" "file \<in> set files"
      "Name file \<notin> set (map Name (listing (cleanUpTmpFiles cfg w) (ImagesDir cfg)))"
  proof -
    have "shouldCleanupTempFile cfg (ModTime file) (now w)"
      using h(4) unfolding cleanUpTmpFiles_listing_distinct [OF h(1,2,3)] by simp
    then have "TempDataLifetime cfg \<noteq> 0 \<and> ModTime file + TempDataLifetime cfg < now w"
      by (simp add: policy)
    then show ?thesis by arith
  qed
  show ?thesis
    using a b c by blast
qed

theorem shouldCleanupTempFile_contract_witness:
  "TempDataLifetime (cfg_with_lifetime Hour) \<noteq> 0
   \<and> shouldCleanupTempFile (cfg_with_lifetime Hour) Hour (3 * Hour)
   \<and> ''a.png'' \<notin> set (map Name (listing (cleanUpTmpFiles (cfg_with_lifetime Hour)
         (images_world (3 * Hour)
            [\<lparr>Name = ''a.png'', ModTime = Hour\<rparr>, \<lparr>Name = ''b.png'', ModTime = 2 * Hour\<rparr>]))
         ''png''))
   \<and> TempDataLifetime (cfg_with_lifetime Hour) < 3 * Hour - Hour"
  using shouldCleanupTempFile_contract
    [of "cfg_with_lifetime Hour" Hour "3 * Hour"
        "images_world (3 * Hour)
           [\<lparr>Name = ''a.png'', ModTime = Hour\<rparr>, \<lparr>Name = ''b.png'', ModTime = 2 * Hour\<rparr>]"
        "[\<lparr>Name = ''a.png'', ModTime = Hour\<rparr>, \<lparr>Name = ''b.png'', ModTime = 2 * Hour\<rparr>]"
        "\<lparr>Name = ''a.png'', ModTime = Hour\<rparr>"]
  by (simp add: eval_defs)

text \<open>
  C2 as stated fails for a negative lifetime, which the configuration can hold: with a
  lifetime of minus one hour, a file modified this very instant is selected and
  removed, although the lifetime is not greater than zero.
\<close>

theorem cleanUpTmpFiles_negative_lifetime_deletes:
  "\<not> 0 < TempDataLifetime (cfg_with_lifetime (- Hour))
   \<and> shouldCleanupTempFile (cfg_with_lifetime (- Hour)) Hour Hour
   \<and> listing (images_world Hour [\<lparr>Name = ''a.png'', ModTime = Hour\<rparr>]) ''png''
       = [\<lparr>Name = ''a.png'', ModTime = Hour\<rparr>]
   \<and> listing (cleanUpTmpFiles (cfg_with_lifetime (- Hour))
        (images_world Hour [\<lparr>Name = ''a.png'', ModTime = Hour\<rparr>])) ''png'' = []"
  by (simp add: eval_defs)

section \<open>Passes of the temp-file cleanup\<close>

text \<open>
  C6.  Lifetime one hour, current time T, a directory holding exactly file A modified
  at T - 2h and file B modified at T - 30m: the pass removes A and keeps B, and the
  log record it writes carries "deleted" = 1, but "kept" = 2, the number of entries
  listed, where the claim has 1.
\<close>

theorem cleanUpTmpFiles_scenario_log:
  "listing (cleanUpTmpFiles (cfg_with_lifetime Hour)
      (images_world T [\<lparr>Name = ''a.png'', ModTime = T - 2 * Hour\<rparr>,
                       \<lparr>Name = ''b.png'', ModTime = T - 30 * Minute\<rparr>])) ''png''
     = [\<lparr>Name = ''b.png'', ModTime = T - 30 * Minute\<rparr>]
   \<and> trace (cleanUpTmpFiles (cfg_with_lifetime Hour)
      (images_world T [\<lparr>Name = ''a.png'', ModTime = T - 2 * Hour\<rparr>,
                       \<lparr>Name = ''b.png'', ModTime = T - 30 * Minute\<rparr>]))
     = [OsStat ''png'', ReadDir ''png'', OsRemove ''png'' ''a.png'',
        Log LvlDebug ''Found old rendered image to delete''
          [(''deleted'', LInt 1), (''kept'', LInt 2)]]"
  by (simp add: eval_defs)




section \<open>The user-invite deletion\<close>

lemma maxInviteLifetime_3_days:
  "int64 (- int64 (int64 (int64 3 * 24) * Hour)) = - (3 * 24 * Hour)"
  by (simp add: int64_def Hour_def Minute_def Second_def)

text \<open>
  C8.  With a user-invite max lifetime of 3 days, the deletion sends the cutoff
  now - 3 days (in Unix seconds) with its statement; an invite created at now - 4d is
  deleted and an invite created at now - 2d is kept.
\<close>

theorem deleteExpiredUserInvites_three_days:
  assumes "UserInviteMaxLifetimeDays cfg = 3" and "exec_err w = None"
    and "created_at old = Time_Unix (now w - 4 * 24 * Hour)"
    and "created_at new = Time_Unix (now w - 2 * 24 * Hour)"
    and "old \<in> set (temp_user w)" and "new \<in> set (temp_user w)"
  shows "DbExec ''DELETE from temp_user WHERE created_at <= ?'' [Time_Unix (now w - 3 * 24 * Hour)]
           \<in> set (trace (snd (deleteExpiredUserInvites cfg ctx w)))
         \<and> old \<notin> set (temp_user (snd (deleteExpiredUserInvites cfg ctx w)))
         \<and> new \<in> set (temp_user (snd (deleteExpiredUserInvites cfg ctx w)))"
proof -
  have cut: "Time_Add (now w) (int64 (- int64 (int64 (int64 3 * 24) * Hour))) = now w - 3 * 24 * Hour"
    unfolding maxInviteLifetime_3_days by (simp add: Time_Add_def)
  have o: "created_at old \<le> Time_Unix (now w - 3 * 24 * Hour)"
    unfolding assms(3) Time_Unix_def by (rule zdiv_mono1) (simp_all add: Hour_def Minute_def Second_def)
  have "Time_Unix (now w - 2 * 24 * Hour) = Time_Unix (now w - 3 * 24 * Hour) + 86400"
    by (simp add: Time_Unix_def Hour_def Minute_def Second_def)
  then have n: "\<not> created_at new \<le> Time_Unix (now w - 3 * 24 * Hour)"
    unfolding assms(4) by simp
  have tu: "temp_user (snd (deleteExpiredUserInvites cfg ctx w))
              = filter (\<lambda>r. \<not> created_at r \<le> Time_Unix (now w - 3 * 24 * Hour)) (temp_user w)"
    unfolding deleteExpiredUserInvites_def assms(1) Let_def WithDbSession_def
    by (simp add: dbSession_Exec_def srv_log_def emit_def time_Now_def cut assms(2) Let_def
          split: option.splits)
  have tr: "DbExec ''DELETE from temp_user WHERE created_at <= ?'' [Time_Unix (now w - 3 * 24 * Hour)]
           \<in> set (trace (snd (deleteExpiredUserInvites cfg ctx w)))"
    unfolding deleteExpiredUserInvites_def assms(1) Let_def WithDbSession_def
    by (simp add: dbSession_Exec_def srv_log_def emit_def time_Now_def cut assms(2) Let_def
          split: option.splits)
  show ?thesis
    unfolding tu using tr o n assms(5,6) by simp
qed

theorem deleteExpiredUserInvites_three_days_witness:
  "\<lparr>Id = 1, created_at = 518400\<rparr>
     \<notin> set (temp_user (snd (deleteExpiredUserInvites (cfg_with_lifetime Hour) (Context None)
         (invites_world (240 * Hour)
            [\<lparr>Id = 1, created_at = 518400\<rparr>, \<lparr>Id = 2, created_at = 691200\<rparr>]))))
   \<and> \<lparr>Id = 2, created_at = 691200\<rparr>
     \<in> set (temp_user (snd (deleteExpiredUserInvites (cfg_with_lifetime Hour) (Context None)
         (invites_world (240 * Hour)
            [\<lparr>Id = 1, created_at = 518400\<rparr>, \<lparr>Id = 2, created_at = 691200\<rparr>]))))"
proof -
  let ?w = "invites_world (240 * Hour)
            [\<lparr>Id = 1, created_at = 518400\<rparr>, \<lparr>Id = 2, created_at = 691200\<rparr>]"
  have 1: "UserInviteMaxLifetimeDays (cfg_with_lifetime Hour) = 3"
    by (simp add: cfg_with_lifetime_def)
  have 2: "exec_err ?w = None"
    by (simp add: invites_world_def quiet_world_def)
  have 3: "created_at \<lparr>Id = 1, created_at = 518400\<rparr> = Time_Unix (now ?w - 4 * 24 * Hour)"
    by (simp add: invites_world_def quiet_world_def Time_Unix_def Hour_def Minute_def Second_def)
  have 4: "created_at \<lparr>Id = 2, created_at = 691200\<rparr> = Time_Unix (now ?w - 2 * 24 * Hour)"
    by (simp add: invites_world_def quiet_world_def Time_Unix_def Hour_def Minute_def Second_def)
  have 5: "\<lparr>Id = 1, created_at = 518400\<rparr> \<in> set (temp_user ?w)"
    by (simp add: invites_world_def quiet_world_def)
  have 6: "\<lparr>Id = 2, created_at = 691200\<rparr> \<in> set (temp_user ?w)"
    by (simp add: invites_world_def quiet_world_def)
  show ?thesis
    using deleteExpiredUserInvites_three_days [OF 1 2 3 4 5 6, of "Context None"] by simp
qed

text \<open>
  C10 (as amended).  When the statement succeeds and reading its affected-row count
  fails, the function logs that failure and returns a nil error together with the
  count that \<open>RowsAffected()\<close> handed back beside its error (0 where the driver hands
  back the zero value); the rows are deleted all the same.
\<close>

theorem deleteExpiredUserInvites_count_unavailable:
  assumes "exec_err w = None" and "rows_affected_err w = Some (n, e)"
  shows "fst (deleteExpiredUserInvites cfg ctx w) = (n, None)
         \<and> last (trace (snd (deleteExpiredUserInvites cfg ctx w)))
             = Log LvlError ''failed to cleanup expired user invites'' [(''error'', LErr e)]
         \<and> temp_user (snd (deleteExpiredUserInvites cfg ctx w))
             = filter (\<lambda>r. \<not> created_at r \<le> Time_Unix (Time_Add (now w)
                 (int64 (- int64 (int64 (int64 (UserInviteMaxLifetimeDays cfg) * 24) * Hour)))))
                 (temp_user w)"
  by (simp add: deleteExpiredUserInvites_def WithDbSession_def dbSession_Exec_def srv_log_def
        emit_def time_Now_def Let_def assms)

theorem deleteExpiredUserInvites_count_unavailable_witness:
  "fst (deleteExpiredUserInvites (cfg_with_lifetime Hour) (Context None)
          ((invites_world (240 * Hour) [\<lparr>Id = 1, created_at = 518400\<rparr>])
             \<lparr>rows_affected_err := Some (0, ErrOther ''no count'')\<rparr>)) = (0, None)
   \<and> temp_user (snd (deleteExpiredUserInvites (cfg_with_lifetime Hour) (Context None)
          ((invites_world (240 * Hour) [\<lparr>Id = 1, created_at = 518400\<rparr>])
             \<lparr>rows_affected_err := Some (0, ErrOther ''no count'')\<rparr>))) = []"
  using deleteExpiredUserInvites_count_unavailable
    [of "(invites_world (240 * Hour) [\<lparr>Id = 1, created_at = 518400\<rparr>])
             \<lparr>rows_affected_err := Some (0, ErrOther ''no count'')\<rparr>"
        0 "ErrOther ''no count''" "cfg_with_lifetime Hour" "Context None"]
  by (simp add: invites_world_def quiet_world_def cfg_with_lifetime_def Time_Unix_def
        Time_Add_def int64_def Hour_def Minute_def Second_def)

text \<open>
  C10 as stated fails where the driver hands back a count beside its error: the
  statement succeeds, \<open>RowsAffected()\<close> returns 7 with an error, and the function
  returns 7 with a nil error, not 0.
\<close>

theorem deleteExpiredUserInvites_count_beside_error:
  "exec_err ((invites_world (240 * Hour) [\<lparr>Id = 1, created_at = 518400\<rparr>])
             \<lparr>rows_affected_err := Some (7, ErrOther ''no count'')\<rparr>) = None
   \<and> fst (deleteExpiredUserInvites (cfg_with_lifetime Hour) (Context None)
          ((invites_world (240 * Hour) [\<lparr>Id = 1, created_at = 518400\<rparr>])
             \<lparr>rows_affected_err := Some (7, ErrOther ''no count'')\<rparr>)) = (7, None)
   \<and> last (trace (snd (deleteExpiredUserInvites (cfg_with_lifetime Hour) (Context None)
          ((invites_world (240 * Hour) [\<lparr>Id = 1, created_at = 518400\<rparr>])
             \<lparr>rows_affected_err := Some (7, ErrOther ''no count'')\<rparr>))))
       = Log LvlError ''failed to cleanup expired user invites''
           [(''error'', LErr (ErrOther ''no count''))]"
  by (simp add: deleteExpiredUserInvites_def WithDbSession_def dbSession_Exec_def srv_log_def
        emit_def time_Now_def Let_def invites_world_def quiet_world_def)

section \<open>The calls of one tick\<close>

lemma cleanUpTmpFiles_filter:
  assumes "\<And>d n. \<not> P (OsRemove d n)" "\<And>l m c. \<not> P (Log l m c)" "\<And>d. \<not> P (ReadDir d)"
  shows "filter P (trace (cleanUpTmpFiles cfg w))
           = filter P (trace w) @ filter P [OsStat (ImagesDir cfg)]"
proof (cases "dirs w (ImagesDir cfg)")
  case NoDir
  then show ?thesis
    by (simp add: cleanUpTmpFiles_def os_Stat_def os_IsNotExist_def emit_def)
next
  case (Unreadable e)
  then show ?thesis
    by (simp add: cleanUpTmpFiles_def os_Stat_def os_IsNotExist_def ioutil_ReadDir_def
          srv_log_def emit_def assms)
next
  case (Dir fs)
  have "filter P (trace (foldl (removeTmpFile cfg)
                   (emit (ReadDir (ImagesDir cfg)) (emit (OsStat (ImagesDir cfg)) w)) gs))
          = filter P (trace (emit (ReadDir (ImagesDir cfg)) (emit (OsStat (ImagesDir cfg)) w)))" for gs
    by (rule foldl_removeTmpFile_filter) (rule assms)+
  then show ?thesis using Dir
    by (simp add: cleanUpTmpFiles_def os_Stat_def os_IsNotExist_def ioutil_ReadDir_def
          srv_log_def emit_def Let_def assms)
qed

lemma deleteExpiredSnapshots_filter:
  assumes "\<And>l m c. \<not> P (Log l m c)"
  shows "filter P (trace (deleteExpiredSnapshots w))
           = filter P (trace w) @ filter P [BusDispatch DeleteExpiredSnapshotsCommand]"
  by (simp add: deleteExpiredSnapshots_def bus_Dispatch_def srv_log_def emit_def assms
        split: sum.splits)

lemma deleteExpiredDashboardVersions_filter:
  assumes "\<And>l m c. \<not> P (Log l m c)"
  shows "filter P (trace (deleteExpiredDashboardVersions w))
           = filter P (trace w) @ filter P [BusDispatch DeleteExpiredVersionsCommand]"
  by (simp add: deleteExpiredDashboardVersions_def bus_Dispatch_def srv_log_def emit_def assms
        split: sum.splits)

lemma deleteExpiredUserInvites_filter:
  assumes "\<And>l m c. \<not> P (Log l m c)" "\<And>q a. \<not> P (DbExec q a)"
  shows "filter P (trace (snd (deleteExpiredUserInvites cfg ctx w)))
           = filter P (trace w) @ filter P [WithDbSessionCall]"
  by (simp add: deleteExpiredUserInvites_def WithDbSession_def dbSession_Exec_def srv_log_def
        emit_def Let_def assms split: option.splits)

lemma deleteOldLoginAttempts_filter:
  assumes "\<And>l m c. \<not> P (Log l m c)"
  shows "filter P (trace (deleteOldLoginAttempts cfg w))
           = filter P (trace w) @
             (if DisableBruteForceLoginProtection cfg then []
              else filter P [BusDispatch (DeleteOldLoginAttemptsCommand
                               (Time_Add (now w) (int64 (Minute * (- 10)))))])"
  by (simp add: deleteOldLoginAttempts_def bus_Dispatch_def srv_log_def emit_def time_Now_def
        assms split: sum.splits)

lemma deleteExpiredSnapshots_fields:
  "now (deleteExpiredSnapshots w) = now w"
  "lock_reply (deleteExpiredSnapshots w) = lock_reply w"
  by (simp_all add: deleteExpiredSnapshots_def bus_Dispatch_def srv_log_def emit_def
        split: sum.splits)

lemma deleteExpiredDashboardVersions_fields:
  "now (deleteExpiredDashboardVersions w) = now w"
  "lock_reply (deleteExpiredDashboardVersions w) = lock_reply w"
  by (simp_all add: deleteExpiredDashboardVersions_def bus_Dispatch_def srv_log_def emit_def
        split: sum.splits)

lemma deleteExpiredUserInvites_fields:
  "now (snd (deleteExpiredUserInvites cfg ctx w)) = now w"
  "lock_reply (snd (deleteExpiredUserInvites cfg ctx w)) = lock_reply w"
  by (simp_all add: deleteExpiredUserInvites_def WithDbSession_def dbSession_Exec_def srv_log_def
        emit_def Let_def split: option.splits)

text \<open>The world after the first four operations of a tick.\<close>

lemma four_operations_filter:
  assumes "\<And>d n. \<not> P (OsRemove d n)" "\<And>l m c. \<not> P (Log l m c)" "\<And>d. \<not> P (ReadDir d)"
    "\<And>q a. \<not> P (DbExec q a)"
  shows "filter P (trace (snd (deleteExpiredUserInvites cfg ctx
            (deleteExpiredDashboardVersions (deleteExpiredSnapshots (cleanUpTmpFiles cfg w))))))
         = filter P (trace w) @
           filter P [OsStat (ImagesDir cfg), BusDispatch DeleteExpiredSnapshotsCommand,
                     BusDispatch DeleteExpiredVersionsCommand, WithDbSessionCall]"
  unfolding deleteExpiredUserInvites_filter [of P, OF assms(2) assms(4)]
    deleteExpiredDashboardVersions_filter [of P, OF assms(2)]
    deleteExpiredSnapshots_filter [of P, OF assms(2)]
    cleanUpTmpFiles_filter [of P, OF assms(1) assms(2) assms(3)]
  by simp

lemma four_operations_lock_reply:
  "lock_reply (snd (deleteExpiredUserInvites cfg ctx
            (deleteExpiredDashboardVersions (deleteExpiredSnapshots (cleanUpTmpFiles cfg w)))))
     = lock_reply w"
  by (simp add: deleteExpiredUserInvites_fields deleteExpiredDashboardVersions_fields
        deleteExpiredSnapshots_fields cleanUpTmpFiles_fields)

lemma tick_filter:
  assumes "\<And>d n. \<not> P (OsRemove d n)" "\<And>l m c. \<not> P (Log l m c)" "\<And>d. \<not> P (ReadDir d)"
    "\<And>q a. \<not> P (DbExec q a)"
  shows "\<exists>es. filter P (trace (tick cfg ctx w))
           = filter P (trace w) @
             filter P [OsStat (ImagesDir cfg), BusDispatch DeleteExpiredSnapshotsCommand,
                       BusDispatch DeleteExpiredVersionsCommand, WithDbSessionCall,
                       LockAndExecuteCall ''delete old login attempts'' (Minute * 10)] @ es
           \<and> (es = [] \<or> (\<not> DisableBruteForceLoginProtection cfg \<and>
                 (\<exists>t. es = filter P [BusDispatch (DeleteOldLoginAttemptsCommand t)])))"
proof -
  let ?w4 = "snd (deleteExpiredUserInvites cfg ctx
            (deleteExpiredDashboardVersions (deleteExpiredSnapshots (cleanUpTmpFiles cfg w))))"
  let ?w5 = "emit (LockAndExecuteCall ''delete old login attempts'' (Minute * 10)) ?w4"
  have w5: "filter P (trace ?w5) = filter P (trace w) @
             filter P [OsStat (ImagesDir cfg), BusDispatch DeleteExpiredSnapshotsCommand,
                       BusDispatch DeleteExpiredVersionsCommand, WithDbSessionCall,
                       LockAndExecuteCall ''delete old login attempts'' (Minute * 10)]"
    using four_operations_filter [of P cfg ctx w, OF assms] by (simp add: emit_def)
  show ?thesis
  proof (cases "lock_reply ?w4 ''delete old login attempts'' (Minute * 10)")
    case (Some e)
    then have "tick cfg ctx w = srv_log LvlError
                 ''failed to lock and execute cleanup of old login attempts''
                 [(''error'', LErr e)] ?w5"
      by (simp add: tick_def LockAndExecute_def Let_def)
    then have "filter P (trace (tick cfg ctx w)) = filter P (trace ?w5)"
      by (simp add: srv_log_def emit_def assms)
    then show ?thesis using w5 by simp
  next
    case None
    then have "tick cfg ctx w = deleteOldLoginAttempts cfg ?w5"
      by (simp add: tick_def LockAndExecute_def Let_def)
    then have "filter P (trace (tick cfg ctx w)) = filter P (trace ?w5) @
             (if DisableBruteForceLoginProtection cfg then []
              else filter P [BusDispatch (DeleteOldLoginAttemptsCommand
                               (Time_Add (now ?w5) (int64 (Minute * (- 10)))))])"
      using deleteOldLoginAttempts_filter [of P cfg ?w5, OF assms(2)] by simp
    then show ?thesis unfolding w5 by (cases "DisableBruteForceLoginProtection cfg") auto
  qed
qed

lemma tick_entry:
  "filter is_entry (trace (tick cfg ctx w))
     = filter is_entry (trace w) @
       [OsStat (ImagesDir cfg), BusDispatch DeleteExpiredSnapshotsCommand,
        BusDispatch DeleteExpiredVersionsCommand, WithDbSessionCall,
        LockAndExecuteCall ''delete old login attempts'' (Minute * 10)]"
  using tick_filter [of is_entry cfg ctx w] by auto

lemma tick_filter_none:
  assumes "\<And>d n. \<not> P (OsRemove d n)" "\<And>l m c. \<not> P (Log l m c)" "\<And>d. \<not> P (ReadDir d)"
    "\<And>q a. \<not> P (DbExec q a)" "\<And>d. \<not> P (OsStat d)"
    "\<not> P (BusDispatch DeleteExpiredSnapshotsCommand)"
    "\<not> P (BusDispatch DeleteExpiredVersionsCommand)"
    "\<not> P WithDbSessionCall" "\<And>n d. \<not> P (LockAndExecuteCall n d)"
    "DisableBruteForceLoginProtection cfg \<or> (\<forall>t. \<not> P (BusDispatch (DeleteOldLoginAttemptsCommand t)))"
  shows "filter P (trace (tick cfg ctx w)) = filter P (trace w)"
proof -
  obtain es where es: "filter P (trace (tick cfg ctx w))
           = filter P (trace w) @
             filter P [OsStat (ImagesDir cfg), BusDispatch DeleteExpiredSnapshotsCommand,
                       BusDispatch DeleteExpiredVersionsCommand, WithDbSessionCall,
                       LockAndExecuteCall ''delete old login attempts'' (Minute * 10)] @ es"
    "es = [] \<or> (\<not> DisableBruteForceLoginProtection cfg \<and>
                 (\<exists>t. es = filter P [BusDispatch (DeleteOldLoginAttemptsCommand t)]))"
    using tick_filter [of P cfg ctx w, OF assms(1-4)] by blast
  have "es = []" using es(2) assms(10) by auto
  then show ?thesis using es(1) assms(5-9) by simp
qed

lemma Run_loop_filter_none:
  assumes "\<And>d n. \<not> P (OsRemove d n)" "\<And>l m c. \<not> P (Log l m c)" "\<And>d. \<not> P (ReadDir d)"
    "\<And>q a. \<not> P (DbExec q a)" "\<And>d. \<not> P (OsStat d)"
    "\<not> P (BusDispatch DeleteExpiredSnapshotsCommand)"
    "\<not> P (BusDispatch DeleteExpiredVersionsCommand)"
    "\<not> P WithDbSessionCall" "\<And>n d. \<not> P (LockAndExecuteCall n d)"
    "DisableBruteForceLoginProtection cfg \<or> (\<forall>t. \<not> P (BusDispatch (DeleteOldLoginAttemptsCommand t)))"
  shows "filter P (trace (snd (Run_loop cfg w evs))) = filter P (trace w)"
proof (induction evs arbitrary: w)
  case Nil
  show ?case by simp
next
  case (Cons ev evs)
  show ?case
  proof (cases ev)
    case (TickerC env c)
    have "filter P (trace (tick cfg (Context c) ((env w)\<lparr>trace := trace w\<rparr>))) = filter P (trace w)"
      using tick_filter_none [of P cfg "Context c" "(env w)\<lparr>trace := trace w\<rparr>", OF assms]
      by simp
    then show ?thesis using Cons.IH TickerC by simp
  next
    case (CtxDone r)
    then show ?thesis by simp
  qed
qed

section \<open>The operation each call belongs to\<close>

lemma remdups_adj_blocks:
  assumes "xs \<noteq> []" "ys = [] \<or> hd ys \<noteq> last xs"
  shows "remdups_adj (xs @ ys) = remdups_adj xs @ remdups_adj ys"
proof (cases ys)
  case Nil
  then show ?thesis by simp
next
  case (Cons y ys')
  then have "y \<noteq> last xs" using assms(2) by simp
  then have "dropWhile (\<lambda>z. z = last xs) ys = ys" using Cons by simp
  then show ?thesis using remdups_adj_append'' [OF assms(1), of ys] by simp
qed

lemma owner_block:
  assumes "seg \<noteq> []" "\<forall>e\<in>set seg. owner e = p"
  shows "remdups_adj (map owner seg) = [p]"
proof -
  have "map owner seg = replicate (length seg) p"
    using assms(2) by (intro replicate_eqI) auto
  then show ?thesis using assms(1) by (simp add: remdups_adj_replicate)
qed

lemma removeTmpFile_owner:
  "\<exists>es. trace (removeTmpFile cfg w g) = trace w @ es \<and> (\<forall>e\<in>set es. owner e = TmpFiles)"
  by (auto simp add: removeTmpFile_def os_Remove_def srv_log_def emit_def Let_def
        split: option.splits dir_state.splits)

lemma foldl_removeTmpFile_owner:
  "\<exists>es. trace (foldl (removeTmpFile cfg) w gs) = trace w @ es \<and> (\<forall>e\<in>set es. owner e = TmpFiles)"
proof (induction gs arbitrary: w)
  case Nil
  show ?case by simp
next
  case (Cons g gs)
  obtain es where es: "trace (removeTmpFile cfg w g) = trace w @ es"
    "\<forall>e\<in>set es. owner e = TmpFiles"
    using removeTmpFile_owner by blast
  obtain es' where es': "trace (foldl (removeTmpFile cfg) (removeTmpFile cfg w g) gs)
      = trace (removeTmpFile cfg w g) @ es'" "\<forall>e\<in>set es'. owner e = TmpFiles"
    using Cons.IH by blast
  have "trace (foldl (removeTmpFile cfg) w (g # gs)) = trace w @ (es @ es')"
    using es(1) es'(1) by simp
  moreover have "\<forall>e\<in>set (es @ es'). owner e = TmpFiles"
    using es(2) es'(2) by auto
  ultimately show ?case by blast
qed

lemma cleanUpTmpFiles_owner:
  "\<exists>seg. trace (cleanUpTmpFiles cfg w) = trace w @ seg \<and> seg \<noteq> [] \<and>
         (\<forall>e\<in>set seg. owner e = TmpFiles)"
proof (cases "dirs w (ImagesDir cfg)")
  case NoDir
  then have "trace (cleanUpTmpFiles cfg w) = trace w @ [OsStat (ImagesDir cfg)]"
    by (simp add: cleanUpTmpFiles_def os_Stat_def os_IsNotExist_def emit_def)
  then show ?thesis by simp
next
  case (Unreadable e)
  then have "trace (cleanUpTmpFiles cfg w) = trace w @
      [OsStat (ImagesDir cfg), ReadDir (ImagesDir cfg),
       Log LvlError ''Problem reading image dir'' [(''error'', LErr e)]]"
    by (simp add: cleanUpTmpFiles_def os_Stat_def os_IsNotExist_def ioutil_ReadDir_def
          srv_log_def emit_def)
  then show ?thesis by simp
next
  case (Dir fs)
  let ?w2 = "emit (ReadDir (ImagesDir cfg)) (emit (OsStat (ImagesDir cfg)) w)"
  let ?del = "filter (\<lambda>file. shouldCleanupTempFile cfg (ModTime file) (now w)) fs"
  obtain es where es: "trace (foldl (removeTmpFile cfg) ?w2 ?del) = trace ?w2 @ es"
    "\<forall>e\<in>set es. owner e = TmpFiles"
    using foldl_removeTmpFile_owner by blast
  have "trace (cleanUpTmpFiles cfg w) = trace (foldl (removeTmpFile cfg) ?w2 ?del) @
      [Log LvlDebug ''Found old rendered image to delete''
         [(''deleted'', LInt (int (length ?del))), (''kept'', LInt (int (length fs)))]]"
    using Dir
    by (simp add: cleanUpTmpFiles_def os_Stat_def os_IsNotExist_def ioutil_ReadDir_def
          srv_log_def emit_def time_Now_def Let_def)
  then have "trace (cleanUpTmpFiles cfg w) = trace w @
      ([OsStat (ImagesDir cfg), ReadDir (ImagesDir cfg)] @ es @
       [Log LvlDebug ''Found old rendered image to delete''
         [(''deleted'', LInt (int (length ?del))), (''kept'', LInt (int (length fs)))]])"
    using es(1) by (simp add: emit_def)
  moreover have "\<forall>e\<in>set ([OsStat (ImagesDir cfg), ReadDir (ImagesDir cfg)] @ es @
       [Log LvlDebug ''Found old rendered image to delete''
         [(''deleted'', LInt (int (length ?del))), (''kept'', LInt (int (length fs)))]]).
       owner e = TmpFiles"
    using es(2) by auto
  ultimately show ?thesis by blast
qed

lemma deleteExpiredSnapshots_owner:
  "\<exists>seg. trace (deleteExpiredSnapshots w) = trace w @ seg \<and> seg \<noteq> [] \<and>
         (\<forall>e\<in>set seg. owner e = Snapshots)"
  by (cases "bus_reply w DeleteExpiredSnapshotsCommand")
     (simp_all add: deleteExpiredSnapshots_def bus_Dispatch_def srv_log_def emit_def)

lemma deleteExpiredDashboardVersions_owner:
  "\<exists>seg. trace (deleteExpiredDashboardVersions w) = trace w @ seg \<and> seg \<noteq> [] \<and>
         (\<forall>e\<in>set seg. owner e = DashboardVersions)"
  by (cases "bus_reply w DeleteExpiredVersionsCommand")
     (simp_all add: deleteExpiredDashboardVersions_def bus_Dispatch_def srv_log_def emit_def)

lemma deleteExpiredUserInvites_owner:
  "\<exists>seg. trace (snd (deleteExpiredUserInvites cfg ctx w)) = trace w @ seg \<and> seg \<noteq> [] \<and>
         (\<forall>e\<in>set seg. owner e = UserInvites)"
  by (cases "exec_err w"; cases "rows_affected_err w")
     (auto simp add: deleteExpiredUserInvites_def WithDbSession_def dbSession_Exec_def
        srv_log_def emit_def Let_def)

lemma deleteOldLoginAttempts_owner:
  "\<exists>seg. trace (deleteOldLoginAttempts cfg w) = trace w @ seg \<and>
         (\<forall>e\<in>set seg. owner e = LoginAttempts)"
  by (cases "DisableBruteForceLoginProtection cfg";
      cases "bus_reply w (DeleteOldLoginAttemptsCommand (Time_Add (now w) (int64 (Minute * (- 10)))))")
     (simp_all add: deleteOldLoginAttempts_def bus_Dispatch_def srv_log_def emit_def time_Now_def)

lemma block_append:
  assumes "xs \<noteq> []" "\<forall>x\<in>set xs. x = p" "remdups_adj ys = q # qs" "q \<noteq> p"
  shows "remdups_adj (xs @ ys) = p # q # qs"
proof -
  have "xs = replicate (length xs) p"
    using assms(2) by (intro replicate_eqI) auto
  then have r: "remdups_adj xs = [p]"
    using assms(1) by (metis length_0_conv remdups_adj_replicate)
  have "last xs = p" using assms(1,2) last_in_set by blast
  moreover have "ys \<noteq> []" using assms(3) by auto
  moreover have "hd ys = q" using hd_remdups_adj [of ys] assms(3) by simp
  ultimately have "ys = [] \<or> hd ys \<noteq> last xs" using assms(4) by simp
  then show ?thesis
    using remdups_adj_blocks [OF assms(1), of ys] r assms(3) by simp
qed

lemma fifth_operation_owner:
  "\<exists>seg. trace (tick cfg ctx w)
           = trace (snd (deleteExpiredUserInvites cfg ctx
               (deleteExpiredDashboardVersions (deleteExpiredSnapshots (cleanUpTmpFiles cfg w)))))
             @ seg
         \<and> seg \<noteq> [] \<and> (\<forall>e\<in>set seg. owner e = LoginAttempts)"
proof -
  let ?w4 = "snd (deleteExpiredUserInvites cfg ctx
            (deleteExpiredDashboardVersions (deleteExpiredSnapshots (cleanUpTmpFiles cfg w))))"
  let ?w5 = "emit (LockAndExecuteCall ''delete old login attempts'' (Minute * 10)) ?w4"
  show ?thesis
  proof (cases "lock_reply ?w4 ''delete old login attempts'' (Minute * 10)")
    case (Some e)
    then have "tick cfg ctx w = srv_log LvlError
                 ''failed to lock and execute cleanup of old login attempts''
                 [(''error'', LErr e)] ?w5"
      by (simp add: tick_def LockAndExecute_def Let_def)
    then have "trace (tick cfg ctx w) = trace ?w4 @
        [LockAndExecuteCall ''delete old login attempts'' (Minute * 10),
         Log LvlError ''failed to lock and execute cleanup of old login attempts''
           [(''error'', LErr e)]]"
      by (simp add: srv_log_def emit_def)
    then show ?thesis by simp
  next
    case None
    then have t: "tick cfg ctx w = deleteOldLoginAttempts cfg ?w5"
      by (simp add: tick_def LockAndExecute_def Let_def)
    obtain seg where seg: "trace (deleteOldLoginAttempts cfg ?w5) = trace ?w5 @ seg"
      "\<forall>e\<in>set seg. owner e = LoginAttempts"
      using deleteOldLoginAttempts_owner by blast
    have "trace (tick cfg ctx w) = trace ?w4 @
        (LockAndExecuteCall ''delete old login attempts'' (Minute * 10) # seg)"
      unfolding t seg(1) by (simp add: emit_def)
    moreover have "\<forall>e\<in>set (LockAndExecuteCall ''delete old login attempts'' (Minute * 10) # seg).
        owner e = LoginAttempts"
      using seg(2) by simp
    ultimately show ?thesis by blast
  qed
qed

lemma tick_owner:
  "\<exists>seg. trace (tick cfg ctx w) = trace w @ seg \<and>
         remdups_adj (map owner seg)
           = [TmpFiles, Snapshots, DashboardVersions, UserInvites, LoginAttempts]"
proof -
  let ?w1 = "cleanUpTmpFiles cfg w"
  let ?w2 = "deleteExpiredSnapshots ?w1"
  let ?w3 = "deleteExpiredDashboardVersions ?w2"
  let ?w4 = "snd (deleteExpiredUserInvites cfg ctx ?w3)"
  obtain s1 where s1: "trace ?w1 = trace w @ s1" "s1 \<noteq> []" "\<forall>e\<in>set s1. owner e = TmpFiles"
    using cleanUpTmpFiles_owner by blast
  obtain s2 where s2: "trace ?w2 = trace ?w1 @ s2" "s2 \<noteq> []" "\<forall>e\<in>set s2. owner e = Snapshots"
    using deleteExpiredSnapshots_owner by blast
  obtain s3 where s3: "trace ?w3 = trace ?w2 @ s3" "s3 \<noteq> []"
    "\<forall>e\<in>set s3. owner e = DashboardVersions"
    using deleteExpiredDashboardVersions_owner by blast
  obtain s4 where s4: "trace ?w4 = trace ?w3 @ s4" "s4 \<noteq> []" "\<forall>e\<in>set s4. owner e = UserInvites"
    using deleteExpiredUserInvites_owner by blast
  obtain s5 where s5: "trace (tick cfg ctx w) = trace ?w4 @ s5" "s5 \<noteq> []"
    "\<forall>e\<in>set s5. owner e = LoginAttempts"
    using fifth_operation_owner by blast
  have tr: "trace (tick cfg ctx w) = trace w @ (s1 @ s2 @ s3 @ s4 @ s5)"
    unfolding s5(1) s4(1) s3(1) s2(1) s1(1) by simp
  have b5: "remdups_adj (map owner s5) = [LoginAttempts]"
    using s5(2,3) by (rule owner_block)
  have b4: "remdups_adj (map owner s4 @ map owner s5) = [UserInvites, LoginAttempts]"
    by (rule block_append [OF _ _ b5]) (use s4 in auto)
  have b3: "remdups_adj (map owner s3 @ map owner s4 @ map owner s5)
      = [DashboardVersions, UserInvites, LoginAttempts]"
    by (rule block_append [OF _ _ b4]) (use s3 in auto)
  have b2: "remdups_adj (map owner s2 @ map owner s3 @ map owner s4 @ map owner s5)
      = [Snapshots, DashboardVersions, UserInvites, LoginAttempts]"
    by (rule block_append [OF _ _ b3]) (use s2 in auto)
  have b1: "remdups_adj (map owner s1 @ map owner s2 @ map owner s3 @ map owner s4 @ map owner s5)
      = [TmpFiles, Snapshots, DashboardVersions, UserInvites, LoginAttempts]"
    by (rule block_append [OF _ _ b2]) (use s1 in auto)
  show ?thesis using tr b1 by (intro exI [of _ "s1 @ s2 @ s3 @ s4 @ s5"]) simp
qed

section \<open>The scheduler loop\<close>

lemma Run_loop_ticks:
  "Run_loop cfg w (map (\<lambda>(env, c). TickerC env c) ticks @ evs)
     = Run_loop cfg (snd (Run_loop cfg w (map (\<lambda>(env, c). TickerC env c) ticks))) evs"
  by (induction ticks arbitrary: w) (simp_all add: case_prod_beta)

lemma Run_loop_ticks_blocked:
  "fst (Run_loop cfg w (map (\<lambda>(env, c). TickerC env c) ticks)) = None"
  by (induction ticks arbitrary: w) (simp_all add: case_prod_beta)

lemma Run_loop_ticks_entry:
  "filter is_entry (trace (snd (Run_loop cfg w (map (\<lambda>(env, c). TickerC env c) ticks))))
     = filter is_entry (trace w) @
       concat (map (\<lambda>t. [OsStat (ImagesDir cfg), BusDispatch DeleteExpiredSnapshotsCommand,
                          BusDispatch DeleteExpiredVersionsCommand, WithDbSessionCall,
                          LockAndExecuteCall ''delete old login attempts'' (Minute * 10)]) ticks)"
proof (induction ticks arbitrary: w)
  case Nil
  show ?case by simp
next
  case (Cons t ticks)
  obtain env c where t: "t = (env, c)" by (cases t)
  show ?case
    unfolding t using Cons.IH [of "tick cfg (Context c) ((env w)\<lparr>trace := trace w\<rparr>)"]
    by (simp add: tick_entry)
qed

lemma Run_loop_ticks_owner:
  "\<exists>seg. trace (snd (Run_loop cfg w (map (\<lambda>(env, c). TickerC env c) ticks))) = trace w @ seg \<and>
         remdups_adj (map owner seg)
           = concat (map (\<lambda>t. [TmpFiles, Snapshots, DashboardVersions, UserInvites, LoginAttempts])
                       ticks)"
proof (induction ticks arbitrary: w)
  case Nil
  show ?case by simp
next
  case (Cons t ticks)
  obtain env c where t: "t = (env, c)" by (cases t)
  let ?v = "tick cfg (Context c) ((env w)\<lparr>trace := trace w\<rparr>)"
  let ?five = "[TmpFiles, Snapshots, DashboardVersions, UserInvites, LoginAttempts]"
  obtain s where s: "trace ?v = trace w @ s" "remdups_adj (map owner s) = ?five"
    using tick_owner [of cfg "Context c" "(env w)\<lparr>trace := trace w\<rparr>"] by auto
  obtain seg where seg: "trace (snd (Run_loop cfg ?v (map (\<lambda>(env, c). TickerC env c) ticks)))
      = trace ?v @ seg"
    "remdups_adj (map owner seg) = concat (map (\<lambda>t. ?five) ticks)"
    using Cons.IH by blast
  have ne: "map owner s \<noteq> []" using s(2) by auto
  have l: "last (map owner s) = LoginAttempts"
    using last_remdups_adj [of "map owner s"] s(2) by simp
  have h: "map owner seg = [] \<or> hd (map owner seg) \<noteq> last (map owner s)"
  proof (cases ticks)
    case Nil
    then show ?thesis using seg(2) by simp
  next
    case (Cons t' ticks')
    then have "hd (map owner seg) = TmpFiles"
      using hd_remdups_adj [of "map owner seg"] seg(2) by simp
    then show ?thesis using l by simp
  qed
  have "remdups_adj (map owner (s @ seg)) = ?five @ concat (map (\<lambda>t. ?five) ticks)"
    using remdups_adj_blocks [OF ne h] s(2) seg(2) by simp
  moreover have "trace (snd (Run_loop cfg w (map (\<lambda>(env, c). TickerC env c) (t # ticks))))
      = trace w @ (s @ seg)"
    unfolding t using seg(1) s(1) by simp
  ultimately show ?case by (intro exI [of _ "s @ seg"]) simp
qed

lemma Run_owner:
  "\<exists>seg. trace (snd (Run cfg w (map (\<lambda>(env, c). TickerC env c) ticks))) = trace w @ seg \<and>
         remdups_adj (map owner seg)
           = [TmpFiles, StartTicker] @
             concat (map (\<lambda>t. [TmpFiles, Snapshots, DashboardVersions, UserInvites, LoginAttempts])
                       ticks)"
proof -
  let ?five = "[TmpFiles, Snapshots, DashboardVersions, UserInvites, LoginAttempts]"
  let ?v = "emit (NewTicker (Minute * 10)) (cleanUpTmpFiles cfg w)"
  obtain s1 where s1: "trace (cleanUpTmpFiles cfg w) = trace w @ s1" "s1 \<noteq> []"
    "\<forall>e\<in>set s1. owner e = TmpFiles"
    using cleanUpTmpFiles_owner by blast
  obtain seg where seg: "trace (snd (Run_loop cfg ?v (map (\<lambda>(env, c). TickerC env c) ticks)))
      = trace ?v @ seg"
    "remdups_adj (map owner seg) = concat (map (\<lambda>t. ?five) ticks)"
    using Run_loop_ticks_owner by blast
  have h: "map owner seg = [] \<or> hd (map owner seg) \<noteq> last [StartTicker]"
  proof (cases ticks)
    case Nil
    then show ?thesis using seg(2) by simp
  next
    case (Cons t' ticks')
    then have "hd (map owner seg) = TmpFiles"
      using hd_remdups_adj [of "map owner seg"] seg(2) by simp
    then show ?thesis by simp
  qed
  have a: "remdups_adj ([StartTicker] @ map owner seg)
      = StartTicker # concat (map (\<lambda>t. ?five) ticks)"
    using remdups_adj_blocks [of "[StartTicker]" "map owner seg", OF _ h] seg(2) by simp
  have b: "remdups_adj (map owner s1 @ [StartTicker] @ map owner seg)
      = TmpFiles # StartTicker # concat (map (\<lambda>t. ?five) ticks)"
    by (rule block_append [OF _ _ a]) (use s1 in auto)
  have "trace (snd (Run cfg w (map (\<lambda>(env, c). TickerC env c) ticks)))
      = trace w @ (s1 @ [NewTicker (Minute * 10)] @ seg)"
    unfolding Run_def seg(1) by (simp add: emit_def s1(1))
  then show ?thesis using b by (intro exI [of _ "s1 @ [NewTicker (Minute * 10)] @ seg"]) simp
qed

lemma tick_calls:
  assumes "\<And>d n. \<not> P (OsRemove d n)" "\<And>l m c. \<not> P (Log l m c)" "\<And>d. \<not> P (ReadDir d)"
    "\<And>q a. \<not> P (DbExec q a)"
  shows "filter P (trace (tick cfg ctx w))
           = filter P (trace w) @
             filter P [OsStat (ImagesDir cfg), BusDispatch DeleteExpiredSnapshotsCommand,
                       BusDispatch DeleteExpiredVersionsCommand, WithDbSessionCall,
                       LockAndExecuteCall ''delete old login attempts'' (Minute * 10)] @
             (if lock_reply w ''delete old login attempts'' (Minute * 10) = None
                 \<and> \<not> DisableBruteForceLoginProtection cfg
              then filter P [BusDispatch (DeleteOldLoginAttemptsCommand
                               (Time_Add (now w) (int64 (Minute * (- 10)))))]
              else [])"
proof -
  let ?w4 = "snd (deleteExpiredUserInvites cfg ctx
            (deleteExpiredDashboardVersions (deleteExpiredSnapshots (cleanUpTmpFiles cfg w))))"
  let ?w5 = "emit (LockAndExecuteCall ''delete old login attempts'' (Minute * 10)) ?w4"
  have w5: "filter P (trace ?w5) = filter P (trace w) @
             filter P [OsStat (ImagesDir cfg), BusDispatch DeleteExpiredSnapshotsCommand,
                       BusDispatch DeleteExpiredVersionsCommand, WithDbSessionCall,
                       LockAndExecuteCall ''delete old login attempts'' (Minute * 10)]"
    using four_operations_filter [of P cfg ctx w, OF assms] by (simp add: emit_def)
  have n5: "now ?w5 = now w"
    by (simp add: emit_def deleteExpiredUserInvites_fields deleteExpiredDashboardVersions_fields
          deleteExpiredSnapshots_fields cleanUpTmpFiles_fields)
  have l4: "lock_reply ?w4 = lock_reply w"
    by (rule four_operations_lock_reply)
  show ?thesis
  proof (cases "lock_reply w ''delete old login attempts'' (Minute * 10)")
    case (Some e)
    then have "tick cfg ctx w = srv_log LvlError
                 ''failed to lock and execute cleanup of old login attempts''
                 [(''error'', LErr e)] ?w5"
      by (simp add: tick_def LockAndExecute_def Let_def l4)
    then have "filter P (trace (tick cfg ctx w)) = filter P (trace ?w5)"
      by (simp add: srv_log_def emit_def assms)
    then show ?thesis using w5 Some by simp
  next
    case None
    then have "tick cfg ctx w = deleteOldLoginAttempts cfg ?w5"
      by (simp add: tick_def LockAndExecute_def Let_def l4)
    then have "filter P (trace (tick cfg ctx w)) = filter P (trace ?w5) @
             (if DisableBruteForceLoginProtection cfg then []
              else filter P [BusDispatch (DeleteOldLoginAttemptsCommand
                               (Time_Add (now ?w5) (int64 (Minute * (- 10)))))])"
      using deleteOldLoginAttempts_filter [of P cfg ?w5, OF assms(2)] by simp
    then show ?thesis unfolding w5 n5 using None by simp
  qed
qed

lemma cleanUpTmpFiles_listing:
  "listing (cleanUpTmpFiles cfg w) (ImagesDir cfg)
     = filter (\<lambda>f. \<not> (\<exists>g\<in>set (listing w (ImagesDir cfg)).
                        shouldCleanupTempFile cfg (ModTime g) (now w) \<and> Name f = Name g \<and>
                        remove_err w (ImagesDir cfg) (Name g) = None))
         (listing w (ImagesDir cfg))"
proof (cases "\<exists>fs. dirs w (ImagesDir cfg) = Dir fs")
  case True
  then obtain fs where fs: "dirs w (ImagesDir cfg) = Dir fs" by blast
  show ?thesis
    unfolding listing_def cleanUpTmpFiles_dirs [OF fs] fs by simp
next
  case False
  then have none: "\<forall>fs. dirs w (ImagesDir cfg) \<noteq> Dir fs" by simp
  have "dirs (cleanUpTmpFiles cfg w) = dirs w" using none by (rule cleanUpTmpFiles_dirs_none)
  moreover have "listing w (ImagesDir cfg) = []"
    using none by (cases "dirs w (ImagesDir cfg)") (simp_all add: listing_def)
  ultimately show ?thesis by (simp add: listing_def)
qed

lemma deleteExpiredSnapshots_only_trace:
  "deleteExpiredSnapshots w = w\<lparr>trace := trace (deleteExpiredSnapshots w)\<rparr>"
  by (cases "bus_reply w DeleteExpiredSnapshotsCommand")
     (simp_all add: deleteExpiredSnapshots_def bus_Dispatch_def srv_log_def emit_def)

lemma deleteExpiredDashboardVersions_only_trace:
  "deleteExpiredDashboardVersions w = w\<lparr>trace := trace (deleteExpiredDashboardVersions w)\<rparr>"
  by (cases "bus_reply w DeleteExpiredVersionsCommand")
     (simp_all add: deleteExpiredDashboardVersions_def bus_Dispatch_def srv_log_def emit_def)

lemma deleteOldLoginAttempts_only_trace:
  "deleteOldLoginAttempts cfg w = w\<lparr>trace := trace (deleteOldLoginAttempts cfg w)\<rparr>"
  by (cases "DisableBruteForceLoginProtection cfg";
      cases "bus_reply w (DeleteOldLoginAttemptsCommand (Time_Add (now w) (int64 (Minute * (- 10)))))")
     (simp_all add: deleteOldLoginAttempts_def bus_Dispatch_def srv_log_def emit_def time_Now_def)

lemma deleteExpiredUserInvites_world:
  "snd (deleteExpiredUserInvites cfg ctx w)
     = w\<lparr>temp_user :=
            (case exec_err w of
               Some e \<Rightarrow> temp_user w
             | None \<Rightarrow>
                 filter (\<lambda>r. \<not> created_at r \<le> Time_Unix (Time_Add (now w)
                    (int64 (- int64 (int64 (int64 (UserInviteMaxLifetimeDays cfg) * 24) * Hour)))))
                   (temp_user w)),
          trace := trace (snd (deleteExpiredUserInvites cfg ctx w))\<rparr>"
  by (cases "exec_err w"; cases "rows_affected_err w")
     (auto simp add: deleteExpiredUserInvites_def WithDbSession_def dbSession_Exec_def
        srv_log_def emit_def time_Now_def Let_def)

lemma fifth_operation_only_trace:
  "(case LockAndExecute ctx actionName lease (deleteOldLoginAttempts cfg) w of
      (Some err, w5) \<Rightarrow> srv_log LvlError msg [(''error'', LErr err)] w5
    | (None, w5) \<Rightarrow> w5)
   = w\<lparr>trace := trace (case LockAndExecute ctx actionName lease (deleteOldLoginAttempts cfg) w of
      (Some err, w5) \<Rightarrow> srv_log LvlError msg [(''error'', LErr err)] w5
    | (None, w5) \<Rightarrow> w5)\<rparr>"
proof (cases "lock_reply w actionName lease")
  case (Some e)
  then show ?thesis by (simp add: LockAndExecute_def srv_log_def emit_def)
next
  case None
  have "deleteOldLoginAttempts cfg (emit (LockAndExecuteCall actionName lease) w)
      = w\<lparr>trace := trace (deleteOldLoginAttempts cfg (emit (LockAndExecuteCall actionName lease) w))\<rparr>"
    using deleteOldLoginAttempts_only_trace [of cfg "emit (LockAndExecuteCall actionName lease) w"]
    by (simp add: emit_def)
  then show ?thesis using None by (simp add: LockAndExecute_def)
qed

lemma deleteExpiredSnapshots_keeps:
  "dirs (deleteExpiredSnapshots w) = dirs w"
  "remove_err (deleteExpiredSnapshots w) = remove_err w"
  "temp_user (deleteExpiredSnapshots w) = temp_user w"
  "exec_err (deleteExpiredSnapshots w) = exec_err w"
  using arg_cong [OF deleteExpiredSnapshots_only_trace, of dirs w]
    arg_cong [OF deleteExpiredSnapshots_only_trace, of remove_err w]
    arg_cong [OF deleteExpiredSnapshots_only_trace, of temp_user w]
    arg_cong [OF deleteExpiredSnapshots_only_trace, of exec_err w]
  by simp_all

lemma deleteExpiredDashboardVersions_keeps:
  "dirs (deleteExpiredDashboardVersions w) = dirs w"
  "remove_err (deleteExpiredDashboardVersions w) = remove_err w"
  "temp_user (deleteExpiredDashboardVersions w) = temp_user w"
  "exec_err (deleteExpiredDashboardVersions w) = exec_err w"
  using arg_cong [OF deleteExpiredDashboardVersions_only_trace, of dirs w]
    arg_cong [OF deleteExpiredDashboardVersions_only_trace, of remove_err w]
    arg_cong [OF deleteExpiredDashboardVersions_only_trace, of temp_user w]
    arg_cong [OF deleteExpiredDashboardVersions_only_trace, of exec_err w]
  by simp_all

lemma deleteExpiredUserInvites_keeps:
  "dirs (snd (deleteExpiredUserInvites cfg ctx w)) = dirs w"
  "temp_user (snd (deleteExpiredUserInvites cfg ctx w))
     = (case exec_err w of
          Some e \<Rightarrow> temp_user w
        | None \<Rightarrow>
            filter (\<lambda>r. \<not> created_at r \<le> Time_Unix (Time_Add (now w)
               (int64 (- int64 (int64 (int64 (UserInviteMaxLifetimeDays cfg) * 24) * Hour)))))
              (temp_user w))"
  using arg_cong [OF deleteExpiredUserInvites_world, of dirs cfg ctx w]
    arg_cong [OF deleteExpiredUserInvites_world, of temp_user cfg ctx w]
  by simp_all

lemma tick_keeps:
  "dirs (tick cfg ctx v)
     = dirs (snd (deleteExpiredUserInvites cfg ctx
         (deleteExpiredDashboardVersions (deleteExpiredSnapshots (cleanUpTmpFiles cfg v)))))"
  "temp_user (tick cfg ctx v)
     = temp_user (snd (deleteExpiredUserInvites cfg ctx
         (deleteExpiredDashboardVersions (deleteExpiredSnapshots (cleanUpTmpFiles cfg v)))))"
proof -
  let ?w4 = "snd (deleteExpiredUserInvites cfg ctx
         (deleteExpiredDashboardVersions (deleteExpiredSnapshots (cleanUpTmpFiles cfg v))))"
  let ?msg = "''failed to lock and execute cleanup of old login attempts''"
  have t: "tick cfg ctx v
      = (case LockAndExecute ctx ''delete old login attempts'' (Minute * 10)
                (deleteOldLoginAttempts cfg) ?w4 of
           (Some err, w5) \<Rightarrow> srv_log LvlError ?msg [(''error'', LErr err)] w5
         | (None, w5) \<Rightarrow> w5)"
    by (simp add: tick_def Let_def)
  note eq = fifth_operation_only_trace
    [where ctx = ctx and actionName = "''delete old login attempts''" and lease = "Minute * 10"
       and cfg = cfg and w = ?w4 and msg = ?msg, folded t]
  show "dirs (tick cfg ctx v) = dirs ?w4"
    using arg_cong [OF eq, of dirs] by simp
  show "temp_user (tick cfg ctx v) = temp_user ?w4"
    using arg_cong [OF eq, of temp_user] by simp
qed

lemma tick_listing:
  "listing (tick cfg ctx v) (ImagesDir cfg)
     = filter (\<lambda>f. \<not> (\<exists>g\<in>set (listing v (ImagesDir cfg)).
                        shouldCleanupTempFile cfg (ModTime g) (now v) \<and> Name f = Name g \<and>
                        remove_err v (ImagesDir cfg) (Name g) = None))
         (listing v (ImagesDir cfg))"
proof -
  have "dirs (tick cfg ctx v) = dirs (cleanUpTmpFiles cfg v)"
    by (simp add: tick_keeps deleteExpiredUserInvites_keeps deleteExpiredDashboardVersions_keeps
          deleteExpiredSnapshots_keeps)
  then have "listing (tick cfg ctx v) (ImagesDir cfg) = listing (cleanUpTmpFiles cfg v) (ImagesDir cfg)"
    by (simp add: listing_def)
  then show ?thesis by (simp only: cleanUpTmpFiles_listing)
qed

lemma tick_temp_user:
  "temp_user (tick cfg ctx v)
     = (case exec_err v of
          Some e \<Rightarrow> temp_user v
        | None \<Rightarrow>
            filter (\<lambda>r. \<not> created_at r \<le> Time_Unix (Time_Add (now v)
               (int64 (- int64 (int64 (int64 (UserInviteMaxLifetimeDays cfg) * 24) * Hour)))))
              (temp_user v))"
  by (cases "exec_err v")
     (simp_all add: tick_keeps deleteExpiredUserInvites_keeps deleteExpiredDashboardVersions_keeps
        deleteExpiredDashboardVersions_fields deleteExpiredSnapshots_keeps
        deleteExpiredSnapshots_fields cleanUpTmpFiles_fields)

text \<open>
  C3.  \<open>Run\<close> makes exactly one temp-file cleanup pass on start, before the ticker
  exists and before any tick.  Then every tick is the five operations run one after
  the other in the fixed order temp files, snapshots, dashboard versions, user invites,
  login attempts (under the lock): each is the operation of the source, applied to the
  world the one before it left.  In the trace, the calls of each operation form one
  block, the blocks follow in that order, nothing else is called, and the dispatch of
  the login-attempt delete, when the lock is granted and the protection enabled, comes
  last, after the call to the lock.  The pass at start and the pass of each tick leave
  in the images directory the entries not selected, or not removable; each tick leaves
  in the invite table the rows younger than the cutoff, where the statement succeeds.
\<close>

theorem Run_order:
  "fst (Run cfg w []) = None
   \<and> snd (Run cfg w []) = emit (NewTicker (Minute * 10)) (cleanUpTmpFiles cfg w)
   \<and> snd (Run cfg w (map (\<lambda>(env, c). TickerC env c) ticks @ [TickerC env c]))
       = tick cfg (Context c)
           ((env (snd (Run cfg w (map (\<lambda>(env, c). TickerC env c) ticks))))
              \<lparr>trace := trace (snd (Run cfg w (map (\<lambda>(env, c). TickerC env c) ticks)))\<rparr>)
   \<and> tick cfg ctx v
       = (case lock_reply v ''delete old login attempts'' (Minute * 10) of
            Some e \<Rightarrow>
              srv_log LvlError ''failed to lock and execute cleanup of old login attempts''
                [(''error'', LErr e)]
                (emit (LockAndExecuteCall ''delete old login attempts'' (Minute * 10))
                   (snd (deleteExpiredUserInvites cfg ctx
                      (deleteExpiredDashboardVersions
                         (deleteExpiredSnapshots (cleanUpTmpFiles cfg v))))))
          | None \<Rightarrow>
              deleteOldLoginAttempts cfg
                (emit (LockAndExecuteCall ''delete old login attempts'' (Minute * 10))
                   (snd (deleteExpiredUserInvites cfg ctx
                      (deleteExpiredDashboardVersions
                         (deleteExpiredSnapshots (cleanUpTmpFiles cfg v)))))))
   \<and> remdups_adj (map owner (drop (length (trace w))
         (trace (snd (Run cfg w (map (\<lambda>(env, c). TickerC env c) ticks))))))
       = [TmpFiles, StartTicker] @
         concat (map (\<lambda>t. [TmpFiles, Snapshots, DashboardVersions, UserInvites, LoginAttempts])
                   ticks)
   \<and> filter (\<lambda>e. is_entry e \<or> is_login_attempt_delete e) (trace (tick cfg ctx v))
       = filter (\<lambda>e. is_entry e \<or> is_login_attempt_delete e) (trace v) @
         [OsStat (ImagesDir cfg), BusDispatch DeleteExpiredSnapshotsCommand,
          BusDispatch DeleteExpiredVersionsCommand, WithDbSessionCall,
          LockAndExecuteCall ''delete old login attempts'' (Minute * 10)] @
         (if lock_reply v ''delete old login attempts'' (Minute * 10) = None
             \<and> \<not> DisableBruteForceLoginProtection cfg
          then [BusDispatch (DeleteOldLoginAttemptsCommand
                  (Time_Add (now v) (int64 (Minute * (- 10)))))]
          else [])
   \<and> listing (snd (Run cfg w [])) (ImagesDir cfg)
       = filter (\<lambda>f. \<not> (\<exists>g\<in>set (listing w (ImagesDir cfg)).
                          shouldCleanupTempFile cfg (ModTime g) (now w) \<and> Name f = Name g \<and>
                          remove_err w (ImagesDir cfg) (Name g) = None))
           (listing w (ImagesDir cfg))
   \<and> listing (tick cfg ctx v) (ImagesDir cfg)
       = filter (\<lambda>f. \<not> (\<exists>g\<in>set (listing v (ImagesDir cfg)).
                          shouldCleanupTempFile cfg (ModTime g) (now v) \<and> Name f = Name g \<and>
                          remove_err v (ImagesDir cfg) (Name g) = None))
           (listing v (ImagesDir cfg))
   \<and> temp_user (tick cfg ctx v)
       = (case exec_err v of
            Some e \<Rightarrow> temp_user v
          | None \<Rightarrow>
              filter (\<lambda>r. \<not> created_at r \<le> Time_Unix (Time_Add (now v)
                 (int64 (- int64 (int64 (int64 (UserInviteMaxLifetimeDays cfg) * 24) * Hour)))))
                (temp_user v))
   \<and> filter is_entry (trace (snd (Run cfg w [])))
       = filter is_entry (trace w) @ [OsStat (ImagesDir cfg), NewTicker (Minute * 10)]
   \<and> filter is_entry (trace (snd (Run cfg w (map (\<lambda>(env, c). TickerC env c) ticks))))
       = filter is_entry (trace w) @ [OsStat (ImagesDir cfg), NewTicker (Minute * 10)] @
         concat (map (\<lambda>t. [OsStat (ImagesDir cfg), BusDispatch DeleteExpiredSnapshotsCommand,
                            BusDispatch DeleteExpiredVersionsCommand, WithDbSessionCall,
                            LockAndExecuteCall ''delete old login attempts'' (Minute * 10)])
                   ticks)"
proof -
  let ?four = "snd (deleteExpiredUserInvites cfg ctx
                 (deleteExpiredDashboardVersions (deleteExpiredSnapshots (cleanUpTmpFiles cfg v))))"
  have a: "fst (Run cfg w []) = None"
    by (simp add: Run_def)
  have b: "snd (Run cfg w []) = emit (NewTicker (Minute * 10)) (cleanUpTmpFiles cfg w)"
    by (simp add: Run_def)
  have c: "snd (Run cfg w (map (\<lambda>(env, c). TickerC env c) ticks @ [TickerC env c]))
       = tick cfg (Context c)
           ((env (snd (Run cfg w (map (\<lambda>(env, c). TickerC env c) ticks))))
              \<lparr>trace := trace (snd (Run cfg w (map (\<lambda>(env, c). TickerC env c) ticks)))\<rparr>)"
    unfolding Run_def Run_loop_ticks by simp
  have l4: "lock_reply ?four = lock_reply v"
    by (rule four_operations_lock_reply)
  have d: "tick cfg ctx v
       = (case lock_reply v ''delete old login attempts'' (Minute * 10) of
            Some e \<Rightarrow>
              srv_log LvlError ''failed to lock and execute cleanup of old login attempts''
                [(''error'', LErr e)]
                (emit (LockAndExecuteCall ''delete old login attempts'' (Minute * 10)) ?four)
          | None \<Rightarrow>
              deleteOldLoginAttempts cfg
                (emit (LockAndExecuteCall ''delete old login attempts'' (Minute * 10)) ?four))"
    by (cases "lock_reply v ''delete old login attempts'' (Minute * 10)")
       (simp_all add: tick_def LockAndExecute_def Let_def l4)
  obtain seg where seg:
    "trace (snd (Run cfg w (map (\<lambda>(env, c). TickerC env c) ticks))) = trace w @ seg"
    "remdups_adj (map owner seg)
       = [TmpFiles, StartTicker] @
         concat (map (\<lambda>t. [TmpFiles, Snapshots, DashboardVersions, UserInvites, LoginAttempts])
                   ticks)"
    using Run_owner by blast
  have e: "remdups_adj (map owner (drop (length (trace w))
         (trace (snd (Run cfg w (map (\<lambda>(env, c). TickerC env c) ticks))))))
       = [TmpFiles, StartTicker] @
         concat (map (\<lambda>t. [TmpFiles, Snapshots, DashboardVersions, UserInvites, LoginAttempts])
                   ticks)"
    unfolding seg(1) using seg(2) by simp
  have f: "filter (\<lambda>e. is_entry e \<or> is_login_attempt_delete e) (trace (tick cfg ctx v))
       = filter (\<lambda>e. is_entry e \<or> is_login_attempt_delete e) (trace v) @
         [OsStat (ImagesDir cfg), BusDispatch DeleteExpiredSnapshotsCommand,
          BusDispatch DeleteExpiredVersionsCommand, WithDbSessionCall,
          LockAndExecuteCall ''delete old login attempts'' (Minute * 10)] @
         (if lock_reply v ''delete old login attempts'' (Minute * 10) = None
             \<and> \<not> DisableBruteForceLoginProtection cfg
          then [BusDispatch (DeleteOldLoginAttemptsCommand
                  (Time_Add (now v) (int64 (Minute * (- 10)))))]
          else [])"
    using tick_calls [of "\<lambda>e. is_entry e \<or> is_login_attempt_delete e" cfg ctx v] by simp
  have start: "filter is_entry (trace (emit (NewTicker (Minute * 10)) (cleanUpTmpFiles cfg w)))
                 = filter is_entry (trace w) @ [OsStat (ImagesDir cfg), NewTicker (Minute * 10)]"
  proof -
    have "filter is_entry (trace (cleanUpTmpFiles cfg w))
            = filter is_entry (trace w) @ filter is_entry [OsStat (ImagesDir cfg)]"
      by (rule cleanUpTmpFiles_filter) simp_all
    then show ?thesis by (simp add: emit_def)
  qed
  have g: "filter is_entry (trace (snd (Run cfg w [])))
       = filter is_entry (trace w) @ [OsStat (ImagesDir cfg), NewTicker (Minute * 10)]"
    unfolding b by (rule start)
  have h: "filter is_entry (trace (snd (Run cfg w (map (\<lambda>(env, c). TickerC env c) ticks))))
       = filter is_entry (trace w) @ [OsStat (ImagesDir cfg), NewTicker (Minute * 10)] @
         concat (map (\<lambda>t. [OsStat (ImagesDir cfg), BusDispatch DeleteExpiredSnapshotsCommand,
                            BusDispatch DeleteExpiredVersionsCommand, WithDbSessionCall,
                            LockAndExecuteCall ''delete old login attempts'' (Minute * 10)])
                   ticks)"
    unfolding Run_def Run_loop_ticks_entry start by simp
  have i: "listing (snd (Run cfg w [])) (ImagesDir cfg)
       = filter (\<lambda>f. \<not> (\<exists>g\<in>set (listing w (ImagesDir cfg)).
                          shouldCleanupTempFile cfg (ModTime g) (now w) \<and> Name f = Name g \<and>
                          remove_err w (ImagesDir cfg) (Name g) = None))
           (listing w (ImagesDir cfg))"
  proof -
    have "listing (snd (Run cfg w [])) (ImagesDir cfg)
            = listing (cleanUpTmpFiles cfg w) (ImagesDir cfg)"
      unfolding b by (simp add: listing_def emit_def)
    then show ?thesis by (simp only: cleanUpTmpFiles_listing)
  qed
  have j: "listing (tick cfg ctx v) (ImagesDir cfg)
       = filter (\<lambda>f. \<not> (\<exists>g\<in>set (listing v (ImagesDir cfg)).
                          shouldCleanupTempFile cfg (ModTime g) (now v) \<and> Name f = Name g \<and>
                          remove_err v (ImagesDir cfg) (Name g) = None))
           (listing v (ImagesDir cfg))"
    by (rule tick_listing)
  have k: "temp_user (tick cfg ctx v)
       = (case exec_err v of
            Some e \<Rightarrow> temp_user v
          | None \<Rightarrow>
              filter (\<lambda>r. \<not> created_at r \<le> Time_Unix (Time_Add (now v)
                 (int64 (- int64 (int64 (int64 (UserInviteMaxLifetimeDays cfg) * 24) * Hour)))))
                (temp_user v))"
    by (rule tick_temp_user)
  show ?thesis
    using a b c d e f i j k g h by (intro conjI)
qed

text \<open>
  C9.  With brute-force login protection disabled, \<open>deleteOldLoginAttempts\<close> returns at
  once and leaves the world as it was: no command is dispatched, also when the lock is
  granted and the body runs.  So no tick, and no run of the loop, dispatches a delete
  of login attempts.
\<close>

theorem deleteOldLoginAttempts_disabled:
  assumes "DisableBruteForceLoginProtection cfg"
  shows "deleteOldLoginAttempts cfg w = w
         \<and> (lock_reply w actionName lease = None \<longrightarrow>
              LockAndExecute ctx actionName lease (deleteOldLoginAttempts cfg) w
                = (None, emit (LockAndExecuteCall actionName lease) w))
         \<and> filter is_login_attempt_delete (trace (tick cfg ctx w))
              = filter is_login_attempt_delete (trace w)
         \<and> filter is_login_attempt_delete (trace (snd (Run cfg w evs)))
              = filter is_login_attempt_delete (trace w)"
proof -
  have a: "deleteOldLoginAttempts cfg v = v" for v
    using assms by (simp add: deleteOldLoginAttempts_def)
  have b: "lock_reply w actionName lease = None \<longrightarrow>
              LockAndExecute ctx actionName lease (deleteOldLoginAttempts cfg) w
                = (None, emit (LockAndExecuteCall actionName lease) w)"
    by (simp add: LockAndExecute_def a)
  have c: "filter is_login_attempt_delete (trace (tick cfg ctx w))
              = filter is_login_attempt_delete (trace w)"
    by (rule tick_filter_none) (simp_all add: assms)
  have pass: "filter is_login_attempt_delete (trace (cleanUpTmpFiles cfg w))
            = filter is_login_attempt_delete (trace w) @
              filter is_login_attempt_delete [OsStat (ImagesDir cfg)]"
    by (rule cleanUpTmpFiles_filter) simp_all
  have "filter is_login_attempt_delete
          (trace (snd (Run_loop cfg (emit (NewTicker (Minute * 10)) (cleanUpTmpFiles cfg w)) evs)))
        = filter is_login_attempt_delete
            (trace (emit (NewTicker (Minute * 10)) (cleanUpTmpFiles cfg w)))"
    by (rule Run_loop_filter_none) (simp_all add: assms)
  also have "\<dots> = filter is_login_attempt_delete (trace w)"
    using pass by (simp add: emit_def)
  finally have d: "filter is_login_attempt_delete (trace (snd (Run cfg w evs)))
              = filter is_login_attempt_delete (trace w)"
    by (simp add: Run_def)
  show ?thesis using a b c d by blast
qed

theorem deleteOldLoginAttempts_disabled_witness:
  "LockAndExecute (Context None) ''delete old login attempts'' (Minute * 10)
       (deleteOldLoginAttempts ((cfg_with_lifetime Hour)\<lparr>DisableBruteForceLoginProtection := True\<rparr>))
       quiet_world
     = (None, emit (LockAndExecuteCall ''delete old login attempts'' (Minute * 10)) quiet_world)
   \<and> filter is_login_attempt_delete
        (trace (snd (Run ((cfg_with_lifetime Hour)\<lparr>DisableBruteForceLoginProtection := True\<rparr>)
           quiet_world [TickerC (\<lambda>w. w\<lparr>now := 10 * Minute\<rparr>) None, CtxDone Canceled]))) = []"
  using deleteOldLoginAttempts_disabled
    [of "(cfg_with_lifetime Hour)\<lparr>DisableBruteForceLoginProtection := True\<rparr>" quiet_world
        "''delete old login attempts''" "Minute * 10" "Context None"
        "[TickerC (\<lambda>w. w\<lparr>now := 10 * Minute\<rparr>) None, CtxDone Canceled]"]
  by (simp add: cfg_with_lifetime_def quiet_world_def)

section \<open>The lock around the login-attempt deletion\<close>

lemma removeTmpFile_lock_reply:
  "removeTmpFile cfg (w\<lparr>lock_reply := g\<rparr>) f = (removeTmpFile cfg w f)\<lparr>lock_reply := g\<rparr>"
  by (simp add: removeTmpFile_def os_Remove_def srv_log_def emit_def Let_def
        split: option.splits dir_state.splits)

lemma foldl_removeTmpFile_lock_reply:
  "foldl (removeTmpFile cfg) (w\<lparr>lock_reply := g\<rparr>) fs
     = (foldl (removeTmpFile cfg) w fs)\<lparr>lock_reply := g\<rparr>"
  by (induction fs arbitrary: w) (simp_all add: removeTmpFile_lock_reply)

lemma cleanUpTmpFiles_lock_reply:
  "cleanUpTmpFiles cfg (w\<lparr>lock_reply := g\<rparr>) = (cleanUpTmpFiles cfg w)\<lparr>lock_reply := g\<rparr>"
proof (cases "dirs w (ImagesDir cfg)")
  case NoDir
  then show ?thesis
    by (simp add: cleanUpTmpFiles_def os_Stat_def os_IsNotExist_def emit_def)
next
  case (Unreadable e)
  then show ?thesis
    by (simp add: cleanUpTmpFiles_def os_Stat_def os_IsNotExist_def ioutil_ReadDir_def
          srv_log_def emit_def)
next
  case (Dir fs)
  have e: "w\<lparr>lock_reply := g, trace := t\<rparr> = (w\<lparr>trace := t\<rparr>)\<lparr>lock_reply := g\<rparr>" for t
    by simp
  show ?thesis using Dir
    by (simp add: cleanUpTmpFiles_def os_Stat_def os_IsNotExist_def ioutil_ReadDir_def
          srv_log_def emit_def time_Now_def Let_def e foldl_removeTmpFile_lock_reply
          del: world.update_convs)
qed

lemma deleteExpiredSnapshots_lock_reply:
  "deleteExpiredSnapshots (w\<lparr>lock_reply := g\<rparr>) = (deleteExpiredSnapshots w)\<lparr>lock_reply := g\<rparr>"
  by (simp add: deleteExpiredSnapshots_def bus_Dispatch_def srv_log_def emit_def
        split: sum.splits)

lemma deleteExpiredDashboardVersions_lock_reply:
  "deleteExpiredDashboardVersions (w\<lparr>lock_reply := g\<rparr>)
     = (deleteExpiredDashboardVersions w)\<lparr>lock_reply := g\<rparr>"
  by (simp add: deleteExpiredDashboardVersions_def bus_Dispatch_def srv_log_def emit_def
        split: sum.splits)

lemma deleteExpiredUserInvites_lock_reply:
  "snd (deleteExpiredUserInvites cfg ctx (w\<lparr>lock_reply := g\<rparr>))
     = (snd (deleteExpiredUserInvites cfg ctx w))\<lparr>lock_reply := g\<rparr>"
  by (simp add: deleteExpiredUserInvites_def WithDbSession_def dbSession_Exec_def srv_log_def
        emit_def time_Now_def Let_def split: option.splits)

text \<open>
  C4.  The login-attempt deletion runs under \<open>LockAndExecute\<close> with a lease of ten
  minutes, which is also the interval of the ticker.  When the coordinator denies the
  lease, the tick is the first four operations, the one call to the lock and one error
  record: the delete body is not run (no login-attempt command is dispatched), the
  lock is asked once, and the first four operations do what they do under any other
  answer of the coordinator.
\<close>

theorem tick_lock_denied:
  assumes "lock_reply w ''delete old login attempts'' (Minute * 10) = Some e"
  shows "tick cfg ctx w
           = srv_log LvlError ''failed to lock and execute cleanup of old login attempts''
               [(''error'', LErr e)]
               (emit (LockAndExecuteCall ''delete old login attempts'' (Minute * 10))
                  (snd (deleteExpiredUserInvites cfg ctx
                     (deleteExpiredDashboardVersions
                        (deleteExpiredSnapshots (cleanUpTmpFiles cfg w))))))
         \<and> filter is_login_attempt_delete (trace (tick cfg ctx w))
             = filter is_login_attempt_delete (trace w)
         \<and> filter is_lock_call (trace (tick cfg ctx w))
             = filter is_lock_call (trace w) @
               [LockAndExecuteCall ''delete old login attempts'' (Minute * 10)]
         \<and> snd (deleteExpiredUserInvites cfg ctx
                 (deleteExpiredDashboardVersions
                    (deleteExpiredSnapshots (cleanUpTmpFiles cfg (w\<lparr>lock_reply := g\<rparr>)))))
             = (snd (deleteExpiredUserInvites cfg ctx
                  (deleteExpiredDashboardVersions
                     (deleteExpiredSnapshots (cleanUpTmpFiles cfg w)))))\<lparr>lock_reply := g\<rparr>
         \<and> filter is_ticker (trace (snd (Run cfg w evs)))
             = filter is_ticker (trace w) @ [NewTicker (Minute * 10)]"
proof -
  let ?w4 = "snd (deleteExpiredUserInvites cfg ctx
               (deleteExpiredDashboardVersions (deleteExpiredSnapshots (cleanUpTmpFiles cfg w))))"
  let ?w5 = "emit (LockAndExecuteCall ''delete old login attempts'' (Minute * 10)) ?w4"
  have denied: "lock_reply ?w4 ''delete old login attempts'' (Minute * 10) = Some e"
    unfolding four_operations_lock_reply by (rule assms)
  have a: "tick cfg ctx w
           = srv_log LvlError ''failed to lock and execute cleanup of old login attempts''
               [(''error'', LErr e)] ?w5"
    using denied by (simp add: tick_def LockAndExecute_def Let_def)
  have four: "filter P (trace ?w4) = filter P (trace w) @
           filter P [OsStat (ImagesDir cfg), BusDispatch DeleteExpiredSnapshotsCommand,
                     BusDispatch DeleteExpiredVersionsCommand, WithDbSessionCall]"
    if "\<And>d n. \<not> P (OsRemove d n)" "\<And>l m c. \<not> P (Log l m c)" "\<And>d. \<not> P (ReadDir d)"
       "\<And>q a. \<not> P (DbExec q a)" for P
    using that by (rule four_operations_filter)
  have b: "filter is_login_attempt_delete (trace (tick cfg ctx w))
             = filter is_login_attempt_delete (trace w)"
    unfolding a by (simp add: srv_log_def emit_def four)
  have c: "filter is_lock_call (trace (tick cfg ctx w))
             = filter is_lock_call (trace w) @
               [LockAndExecuteCall ''delete old login attempts'' (Minute * 10)]"
    unfolding a by (simp add: srv_log_def emit_def four)
  have d: "snd (deleteExpiredUserInvites cfg ctx
                 (deleteExpiredDashboardVersions
                    (deleteExpiredSnapshots (cleanUpTmpFiles cfg (w\<lparr>lock_reply := g\<rparr>)))))
             = ?w4\<lparr>lock_reply := g\<rparr>"
    by (simp only: cleanUpTmpFiles_lock_reply deleteExpiredSnapshots_lock_reply
          deleteExpiredDashboardVersions_lock_reply deleteExpiredUserInvites_lock_reply)
  have pass: "filter is_ticker (trace (cleanUpTmpFiles cfg w))
            = filter is_ticker (trace w) @ filter is_ticker [OsStat (ImagesDir cfg)]"
    by (rule cleanUpTmpFiles_filter) simp_all
  have "filter is_ticker
          (trace (snd (Run_loop cfg (emit (NewTicker (Minute * 10)) (cleanUpTmpFiles cfg w)) evs)))
        = filter is_ticker (trace (emit (NewTicker (Minute * 10)) (cleanUpTmpFiles cfg w)))"
    by (rule Run_loop_filter_none) simp_all
  also have "\<dots> = filter is_ticker (trace w) @ [NewTicker (Minute * 10)]"
    using pass by (simp add: emit_def)
  finally have f: "filter is_ticker (trace (snd (Run cfg w evs)))
             = filter is_ticker (trace w) @ [NewTicker (Minute * 10)]"
    by (simp add: Run_def)
  show ?thesis using a b c d f by blast
qed

theorem tick_lock_denied_witness:
  "filter is_lock_call (trace (tick (cfg_with_lifetime Hour) (Context None)
       (quiet_world\<lparr>lock_reply := (\<lambda>n d. Some (ErrOther ''lease held''))\<rparr>)))
     = [LockAndExecuteCall ''delete old login attempts'' (Minute * 10)]
   \<and> filter is_login_attempt_delete (trace (tick (cfg_with_lifetime Hour) (Context None)
       (quiet_world\<lparr>lock_reply := (\<lambda>n d. Some (ErrOther ''lease held''))\<rparr>))) = []
   \<and> last (trace (tick (cfg_with_lifetime Hour) (Context None)
       (quiet_world\<lparr>lock_reply := (\<lambda>n d. Some (ErrOther ''lease held''))\<rparr>)))
     = Log LvlError ''failed to lock and execute cleanup of old login attempts''
         [(''error'', LErr (ErrOther ''lease held''))]"
proof -
  let ?w = "quiet_world\<lparr>lock_reply := (\<lambda>n d. Some (ErrOther ''lease held''))\<rparr>"
  have h: "lock_reply ?w ''delete old login attempts'' (Minute * 10) = Some (ErrOther ''lease held'')"
    by simp
  have t: "trace ?w = []"
    by (simp add: quiet_world_def)
  note denied = tick_lock_denied [OF h, of "cfg_with_lifetime Hour" "Context None" "lock_reply ?w" "[]"]
  have a: "last (trace (tick (cfg_with_lifetime Hour) (Context None) ?w))
     = Log LvlError ''failed to lock and execute cleanup of old login attempts''
         [(''error'', LErr (ErrOther ''lease held''))]"
    unfolding denied [THEN conjunct1] by (simp add: srv_log_def emit_def)
  have b: "filter is_login_attempt_delete (trace (tick (cfg_with_lifetime Hour) (Context None) ?w)) = []"
    unfolding denied [THEN conjunct2, THEN conjunct1] t by simp
  have c: "filter is_lock_call (trace (tick (cfg_with_lifetime Hour) (Context None) ?w))
     = [LockAndExecuteCall ''delete old login attempts'' (Minute * 10)]"
    unfolding denied [THEN conjunct2, THEN conjunct2, THEN conjunct1] t by simp
  show ?thesis using a b c by blast
qed

text \<open>
  C5.  \<open>Run\<close> returns when, and only when, the \<open>select\<close> takes the case of
  \<open>ctx.Done()\<close>, and what it returns is \<open>ctx.Err()\<close>.  The ticks before that have run
  in full, and nothing runs after.  A tick does not look at the context: with the
  cancellation already there it runs the same five operations to the end as without.
\<close>

theorem Run_cancellation:
  "fst (Run cfg w (map (\<lambda>(env, c). TickerC env c) ticks @ CtxDone r # rest)) = Some r
   \<and> snd (Run cfg w (map (\<lambda>(env, c). TickerC env c) ticks @ CtxDone r # rest))
       = snd (Run cfg w (map (\<lambda>(env, c). TickerC env c) ticks))
   \<and> fst (Run cfg w (map (\<lambda>(env, c). TickerC env c) ticks)) = None
   \<and> snd (Run cfg w (map (\<lambda>(env, c). TickerC env c) ticks @ [TickerC env (Some r)]))
       = tick cfg (Context None)
           ((env (snd (Run cfg w (map (\<lambda>(env, c). TickerC env c) ticks))))
              \<lparr>trace := trace (snd (Run cfg w (map (\<lambda>(env, c). TickerC env c) ticks)))\<rparr>)
   \<and> tick cfg (Context c) w = tick cfg (Context None) w
   \<and> filter is_entry (trace (tick cfg (Context (Some r)) w))
       = filter is_entry (trace w) @
         [OsStat (ImagesDir cfg), BusDispatch DeleteExpiredSnapshotsCommand,
          BusDispatch DeleteExpiredVersionsCommand, WithDbSessionCall,
          LockAndExecuteCall ''delete old login attempts'' (Minute * 10)]"
proof -
  have t: "tick cfg (Context c') v = tick cfg (Context None) v" for c' v
    by (simp add: tick_def deleteExpiredUserInvites_def WithDbSession_def LockAndExecute_def)
  have a: "Run cfg w (map (\<lambda>(env, c). TickerC env c) ticks @ CtxDone r # rest)
             = (Some r, snd (Run cfg w (map (\<lambda>(env, c). TickerC env c) ticks)))"
    unfolding Run_def Run_loop_ticks by simp
  have b: "fst (Run cfg w (map (\<lambda>(env, c). TickerC env c) ticks)) = None"
    unfolding Run_def by (rule Run_loop_ticks_blocked)
  have d: "snd (Run cfg w (map (\<lambda>(env, c). TickerC env c) ticks @ [TickerC env (Some r)]))
       = tick cfg (Context None)
           ((env (snd (Run cfg w (map (\<lambda>(env, c). TickerC env c) ticks))))
              \<lparr>trace := trace (snd (Run cfg w (map (\<lambda>(env, c). TickerC env c) ticks)))\<rparr>)"
    unfolding Run_def Run_loop_ticks by (simp add: t [of "Some r"])
  show ?thesis
    using a b d t [of c w] tick_entry [of cfg "Context (Some r)" w] by simp
qed

end
